theory Spec2Isabelle
  imports Complex_Main
begin

section \<open>Numbers\<close>

text \<open>
  The engine computes on JavaScript numbers. A number is modelled as a real (rounding and
  overflow are abstracted away) or as \<open>NaN\<close>, which the engine itself produces when an
  operand is \<open>undefined\<close>: an array read past the end, or a property that was never set.
  \<open>undefined\<close> is \<open>None\<close>.
\<close>

datatype number = Num real | NaN

fun toNumber :: "number option \<Rightarrow> number" where
  "toNumber None = NaN"
| "toNumber (Some v) = v"

fun js_add :: "number \<Rightarrow> number \<Rightarrow> number" where
  "js_add (Num a) (Num b) = Num (a + b)"
| "js_add _ _ = NaN"

fun js_sub :: "number \<Rightarrow> number \<Rightarrow> number" where
  "js_sub (Num a) (Num b) = Num (a - b)"
| "js_sub _ _ = NaN"

fun js_mul :: "number \<Rightarrow> number \<Rightarrow> number" where
  "js_mul (Num a) (Num b) = Num (a * b)"
| "js_mul _ _ = NaN"

text \<open>\<open>v || 0\<close>: the falsy values \<open>undefined\<close>, \<open>NaN\<close> and \<open>0\<close> all give \<open>0\<close>.\<close>

fun or_zero :: "number option \<Rightarrow> number" where
  "or_zero (Some (Num a)) = (if a = 0 then Num 0 else Num a)"
| "or_zero _ = Num 0"

text \<open>\<open>xs[i]\<close> on an array: \<open>undefined\<close> past the end.\<close>

definition at_index :: "'a list \<Rightarrow> nat \<Rightarrow> 'a option" where
  "at_index xs i = (if i < length xs then Some (xs ! i) else None)"

section \<open>Data model\<close>

datatype NodeType = Input | Hidden | Output

text \<open>
  \<open>NetworkNode\<close>; \<open>error\<close> is the property that \<open>backward\<close> attaches to the node
  object, absent (\<open>None\<close>) until then.
\<close>

record NetworkNode =
  id_n :: string
  x_n :: nat
  y_n :: nat
  layer :: nat
  activation :: number
  bias :: number
  type_n :: NodeType
  error :: "number option"

record NetworkConnection =
  id_c :: string
  fromNodeId :: string
  toNodeId :: string
  weight :: number
  gradient :: number

record NetworkConfig =
  inputSize :: nat
  hiddenLayers :: "nat list"
  outputSize :: nat
  learningRate :: number
  activationFunction :: string

record NeuralNetwork =
  nodes :: "NetworkNode list"
  connections :: "NetworkConnection list"
  config :: NetworkConfig

section \<open>Activation and loss\<close>

text \<open>
  \<open>activate\<close> and \<open>activateDerivative\<close>: the \<open>switch\<close> on the selector, its \<open>default\<close> branch
  last. \<open>Math.exp\<close>, \<open>Math.max\<close> and \<open>Math.tanh\<close> give \<open>NaN\<close> on \<open>NaN\<close>, and \<open>NaN > 0\<close> is false.
\<close>

definition activate :: "NetworkConfig \<Rightarrow> number \<Rightarrow> number" where
  "activate cfg v =
     (if activationFunction cfg = ''sigmoid'' then
        (case v of Num x \<Rightarrow> Num (1 / (1 + exp (- x))) | NaN \<Rightarrow> NaN)
      else if activationFunction cfg = ''relu'' then
        (case v of Num x \<Rightarrow> Num (max 0 x) | NaN \<Rightarrow> NaN)
      else if activationFunction cfg = ''tanh'' then
        (case v of Num x \<Rightarrow> Num (tanh x) | NaN \<Rightarrow> NaN)
      else
        (case v of Num x \<Rightarrow> Num (1 / (1 + exp (- x))) | NaN \<Rightarrow> NaN))"

definition activateDerivative :: "NetworkConfig \<Rightarrow> number \<Rightarrow> number" where
  "activateDerivative cfg v =
     (if activationFunction cfg = ''sigmoid'' then js_mul v (js_sub (Num 1) v)
      else if activationFunction cfg = ''relu'' then
        (case v of Num x \<Rightarrow> (if x > 0 then Num x else Num 0) | NaN \<Rightarrow> Num 0)
      else if activationFunction cfg = ''tanh'' then js_sub (Num 1) (js_mul v v)
      else js_mul v (js_sub (Num 1) v))"

text \<open>
  \<open>calculateLoss\<close>: \<open>reduce\<close> is a left fold over the predictions with their indices,
  from \<open>0\<close>; the sum is divided by \<open>predictions.length\<close>, and \<open>0 / 0\<close> is \<open>NaN\<close>.
\<close>

definition calculateLoss :: "number list \<Rightarrow> number list \<Rightarrow> number" where
  "calculateLoss predictions targets =
     (let d = (\<lambda>pred i. js_sub pred (toNumber (at_index targets i)));
          s = foldl (\<lambda>acc (i, pred). js_add acc (js_mul (d pred i) (d pred i))) (Num 0)
                    (enumerate 0 predictions)
      in case s of
           Num r \<Rightarrow> (if predictions = [] then NaN else Num (r / real (length predictions)))
         | NaN \<Rightarrow> NaN)"

section \<open>Topology construction\<close>

text \<open>The decimal rendering of a counter inside a template literal.\<close>

definition digit_char :: "nat \<Rightarrow> char" where
  "digit_char d = ''0123456789'' ! d"

function string_of_nat :: "nat \<Rightarrow> string" where
  "string_of_nat n =
     (if n < 10 then [digit_char n] else string_of_nat (n div 10) @ [digit_char (n mod 10)])"
  by pat_completeness auto
termination
  by (relation "measure (\<lambda>n. n)") auto

declare string_of_nat.simps [simp del]

definition layerType :: "nat \<Rightarrow> nat \<Rightarrow> NodeType" where
  "layerType numLayers layerIndex =
     (if layerIndex = 0 then Input
      else if layerIndex = numLayers - 1 then Output
      else Hidden)"

text \<open>
  \<open>Math.random()\<close> is a parameter: \<open>rnd k\<close> is what its \<open>k\<close>-th call inside
  \<open>initializeNetwork\<close> returns. Each node draws once, in creation order, so the node with
  counter \<open>nodeId\<close> draws \<open>rnd nodeId\<close>; the connections draw after all nodes.
\<close>

definition new_node :: "(nat \<Rightarrow> real) \<Rightarrow> nat \<Rightarrow> nat \<Rightarrow> nat \<Rightarrow> nat \<Rightarrow> NetworkNode" where
  "new_node rnd numLayers layerIndex nodeId i =
     \<lparr>id_n = ''node-'' @ string_of_nat nodeId,
      x_n = layerIndex * 200 + 100,
      y_n = i * 80 + 100,
      layer = layerIndex,
      activation = Num 0,
      bias = Num (rnd nodeId * 2 - 1),
      type_n = layerType numLayers layerIndex,
      error = None\<rparr>"

fun create_nodes :: "(nat \<Rightarrow> real) \<Rightarrow> nat \<Rightarrow> nat \<Rightarrow> nat \<Rightarrow> nat list \<Rightarrow> NetworkNode list" where
  "create_nodes rnd numLayers layerIndex nodeId [] = []"
| "create_nodes rnd numLayers layerIndex nodeId (layerSize # rest) =
     map (\<lambda>i. new_node rnd numLayers layerIndex (nodeId + i) i) [0..<layerSize]
     @ create_nodes rnd numLayers (Suc layerIndex) (nodeId + layerSize) rest"

definition new_connection :: "real \<Rightarrow> NetworkNode \<Rightarrow> NetworkNode \<Rightarrow> NetworkConnection" where
  "new_connection r fromNode toNode =
     \<lparr>id_c = ''conn-'' @ id_n fromNode @ ''-'' @ id_n toNode,
      fromNodeId = id_n fromNode,
      toNodeId = id_n toNode,
      weight = Num (r * 2 - 1),
      gradient = Num 0\<rparr>"

text \<open>
  The endpoint pairs in the order the nested loops push them: layer by layer, every node
  of the layer against every node of the next one.
\<close>

definition connection_pairs :: "NetworkNode list \<Rightarrow> nat \<Rightarrow> (NetworkNode \<times> NetworkNode) list" where
  "connection_pairs ns numLayers =
     concat (map (\<lambda>l. List.product (filter (\<lambda>n. layer n = l) ns)
                                    (filter (\<lambda>n. layer n = l + 1) ns))
                 [0..<numLayers - 1])"

definition create_connections ::
  "(nat \<Rightarrow> real) \<Rightarrow> nat \<Rightarrow> NetworkNode list \<Rightarrow> nat \<Rightarrow> NetworkConnection list" where
  "create_connections rnd drawn ns numLayers =
     map (\<lambda>(k, (fromNode, toNode)). new_connection (rnd (drawn + k)) fromNode toNode)
         (enumerate 0 (connection_pairs ns numLayers))"

definition layerSizes :: "NetworkConfig \<Rightarrow> nat list" where
  "layerSizes cfg = inputSize cfg # hiddenLayers cfg @ [outputSize cfg]"

definition initializeNetwork :: "NetworkConfig \<Rightarrow> (nat \<Rightarrow> real) \<Rightarrow> NeuralNetwork" where
  "initializeNetwork cfg rnd =
     (let ns = create_nodes rnd (length (layerSizes cfg)) 0 0 (layerSizes cfg)
      in \<lparr>nodes = ns,
          connections = create_connections rnd (length ns) ns (length (layerSizes cfg)),
          config = cfg\<rparr>)"

section \<open>Forward and backward passes\<close>

datatype exn = TypeError

text \<open>
  A loop whose body mutates a state and may throw: the exception stops the loop and leaves
  the state as mutated so far.
\<close>

fun forEach :: "('a \<Rightarrow> 's \<Rightarrow> exn option \<times> 's) \<Rightarrow> 'a list \<Rightarrow> 's \<Rightarrow> exn option \<times> 's" where
  "forEach f [] s = (None, s)"
| "forEach f (x # xs) s =
     (case f x s of
        (Some e, s') \<Rightarrow> (Some e, s')
      | (None, s') \<Rightarrow> forEach f xs s')"

definition find_node :: "NetworkNode list \<Rightarrow> string \<Rightarrow> NetworkNode option" where
  "find_node ns a = find (\<lambda>n. id_n n = a) ns"

text \<open>
  \<open>filter\<close> on \<open>this.nodes\<close> gives references to the node objects themselves; they are
  the positions in \<open>this.nodes\<close>, in order.
\<close>

definition indices_where :: "('a \<Rightarrow> bool) \<Rightarrow> 'a list \<Rightarrow> nat list" where
  "indices_where P xs = filter (\<lambda>i. P (xs ! i)) [0..<length xs]"

text \<open>\<open>Math.max(...xs)\<close>; \<open>None\<close> is the \<open>-Infinity\<close> of no arguments.\<close>

fun js_max :: "nat list \<Rightarrow> nat option" where
  "js_max [] = None"
| "js_max (x # xs) = (case js_max xs of None \<Rightarrow> Some x | Some m \<Rightarrow> Some (max x m))"

definition set_inputs :: "number list \<Rightarrow> NetworkNode list \<Rightarrow> NetworkNode list" where
  "set_inputs inputs ns =
     fold (\<lambda>(index, i) ns. ns[i := (ns ! i)\<lparr>activation := or_zero (at_index inputs index)\<rparr>])
          (enumerate 0 (indices_where (\<lambda>n. type_n n = Input) ns)) ns"

definition add_incoming ::
  "NetworkNode list \<Rightarrow> NetworkConnection \<Rightarrow> number \<Rightarrow> exn option \<times> number" where
  "add_incoming ns conn acc =
     (case find_node ns (fromNodeId conn) of
        None \<Rightarrow> (Some TypeError, acc)
      | Some fromNode \<Rightarrow> (None, js_add acc (js_mul (activation fromNode) (weight conn))))"

definition forward_node ::
  "NetworkConfig \<Rightarrow> NetworkConnection list \<Rightarrow> nat \<Rightarrow> NetworkNode list
     \<Rightarrow> exn option \<times> NetworkNode list" where
  "forward_node cfg conns i ns =
     (let node = ns ! i;
          incomingConnections = filter (\<lambda>c. toNodeId c = id_n node) conns
      in case forEach (add_incoming ns) incomingConnections (bias node) of
           (Some e, _) \<Rightarrow> (Some e, ns)
         | (None, acc) \<Rightarrow> (None, ns[i := node\<lparr>activation := activate cfg acc\<rparr>]))"

definition forward_layer ::
  "NetworkConfig \<Rightarrow> NetworkConnection list \<Rightarrow> nat \<Rightarrow> NetworkNode list
     \<Rightarrow> exn option \<times> NetworkNode list" where
  "forward_layer cfg conns l ns =
     forEach (forward_node cfg conns) (indices_where (\<lambda>n. layer n = l) ns) ns"

definition forward :: "NeuralNetwork \<Rightarrow> number list \<Rightarrow> (exn + number list) \<times> NeuralNetwork" where
  "forward net inputs =
     (let ns = set_inputs inputs (nodes net);
          layers = (case js_max (map layer ns) of None \<Rightarrow> [] | Some m \<Rightarrow> [1..<Suc m])
      in case forEach (forward_layer (config net) (connections net)) layers ns of
           (Some e, ns') \<Rightarrow> (Inl e, net\<lparr>nodes := ns'\<rparr>)
         | (None, ns') \<Rightarrow>
             (Inr (map activation (filter (\<lambda>n. type_n n = Output) ns')), net\<lparr>nodes := ns'\<rparr>))"

definition set_output_errors ::
  "NetworkConfig \<Rightarrow> number list \<Rightarrow> NetworkNode list \<Rightarrow> NetworkNode list" where
  "set_output_errors cfg expectedOutputs ns =
     fold (\<lambda>(index, i) ns.
             ns[i := (ns ! i)\<lparr>error := Some (js_mul
                  (js_sub (toNumber (at_index expectedOutputs index)) (activation (ns ! i)))
                  (activateDerivative cfg (activation (ns ! i))))\<rparr>])
          (enumerate 0 (indices_where (\<lambda>n. type_n n = Output) ns)) ns"

definition add_outgoing ::
  "NetworkNode list \<Rightarrow> NetworkConnection \<Rightarrow> number \<Rightarrow> exn option \<times> number" where
  "add_outgoing ns conn errorSum =
     (case find_node ns (toNodeId conn) of
        None \<Rightarrow> (Some TypeError, errorSum)
      | Some toNode \<Rightarrow> (None, js_add errorSum (js_mul (toNumber (error toNode)) (weight conn))))"

definition backward_node ::
  "NetworkConfig \<Rightarrow> NetworkConnection list \<Rightarrow> nat \<Rightarrow> NetworkNode list
     \<Rightarrow> exn option \<times> NetworkNode list" where
  "backward_node cfg conns i ns =
     (let node = ns ! i
      in if type_n node = Input then (None, ns)
         else
           (let outgoingConnections = filter (\<lambda>c. fromNodeId c = id_n node) conns
            in case forEach (add_outgoing ns) outgoingConnections (Num 0) of
                 (Some e, _) \<Rightarrow> (Some e, ns)
               | (None, errorSum) \<Rightarrow>
                   (None, ns[i := node\<lparr>error :=
                      Some (js_mul errorSum (activateDerivative cfg (activation node)))\<rparr>])))"

definition backward_layer ::
  "NetworkConfig \<Rightarrow> NetworkConnection list \<Rightarrow> nat \<Rightarrow> NetworkNode list
     \<Rightarrow> exn option \<times> NetworkNode list" where
  "backward_layer cfg conns l ns =
     forEach (backward_node cfg conns) (indices_where (\<lambda>n. layer n = l) ns) ns"

definition update_connection ::
  "NetworkConfig \<Rightarrow> NetworkNode list \<Rightarrow> nat \<Rightarrow> NetworkConnection list
     \<Rightarrow> exn option \<times> NetworkConnection list" where
  "update_connection cfg ns k conns =
     (let conn = conns ! k
      in case (find_node ns (fromNodeId conn), find_node ns (toNodeId conn)) of
           (Some fromNode, Some toNode) \<Rightarrow>
             (let gradient = js_mul (toNumber (error toNode)) (activation fromNode)
              in (None, conns[k := conn\<lparr>gradient := gradient,
                    weight := js_add (weight conn) (js_mul (learningRate cfg) gradient)\<rparr>]))
         | _ \<Rightarrow> (Some TypeError, conns))"

definition backward :: "NeuralNetwork \<Rightarrow> number list \<Rightarrow> exn option \<times> NeuralNetwork" where
  "backward net expectedOutputs =
     (let ns = set_output_errors (config net) expectedOutputs (nodes net);
          layers = (case js_max (map layer ns) of None \<Rightarrow> [] | Some m \<Rightarrow> rev [0..<m])
      in case forEach (backward_layer (config net) (connections net)) layers ns of
           (Some e, ns') \<Rightarrow> (Some e, net\<lparr>nodes := ns'\<rparr>)
         | (None, ns') \<Rightarrow>
             (case forEach (update_connection (config net) ns')
                     [0..<length (connections net)] (connections net) of
                (e, conns') \<Rightarrow> (e, net\<lparr>nodes := ns', connections := conns'\<rparr>)))"

section \<open>A small network\<close>

text \<open>
  One input, one hidden and one output neuron, ReLU, learning rate \<open>1/2\<close>, every draw of
  the random source \<open>3/4\<close>, so that every bias and weight starts at \<open>1/2\<close>.
\<close>

definition cfg_ex :: NetworkConfig where
  "cfg_ex = \<lparr>inputSize = 1, hiddenLayers = [1], outputSize = 1, learningRate = Num (1 / 2),
      activationFunction = ''relu''\<rparr>"

definition net_ex :: NeuralNetwork where
  "net_ex = initializeNetwork cfg_ex (\<lambda>k. 3 / 4)"

section \<open>Layered connectivity\<close>

text \<open>
  Node ids are unique, and there is a connection from \<open>a\<close> to \<open>b\<close> exactly when \<open>b\<close> is one
  layer above \<open>a\<close>.
\<close>

definition adjacent_layers_connected :: "NeuralNetwork \<Rightarrow> bool" where
  "adjacent_layers_connected net =
     (distinct (map id_n (nodes net)) \<and>
      (\<forall>a \<in> set (nodes net). \<forall>b \<in> set (nodes net).
         (\<exists>c \<in> set (connections net). fromNodeId c = id_n a \<and> toNodeId c = id_n b)
         = (Suc (layer a) = layer b)))"

section \<open>Well-formed networks\<close>

text \<open>
  What construction fixes and no pass writes: of a node its id, coordinates, layer and type,
  of a connection its id and endpoints.
\<close>

definition static_node :: "NetworkNode \<Rightarrow> string \<times> nat \<times> nat \<times> nat \<times> NodeType" where
  "static_node n = (id_n n, x_n n, y_n n, layer n, type_n n)"

definition static_connection :: "NetworkConnection \<Rightarrow> string \<times> string \<times> string" where
  "static_connection c = (id_c c, fromNodeId c, toNodeId c)"

text \<open>
  A network is well formed when all widths of its configuration are positive and its nodes
  and connections are the ones \<open>initializeNetwork\<close> makes for that configuration, whatever
  their activations, biases, errors, weights and gradients.
\<close>

definition wf_network :: "NeuralNetwork \<Rightarrow> bool" where
  "wf_network net =
     (0 < inputSize (config net) \<and> (\<forall>h \<in> set (hiddenLayers (config net)). 0 < h)
      \<and> 0 < outputSize (config net)
      \<and> map static_node (nodes net)
          = map static_node (nodes (initializeNetwork (config net) (\<lambda>k. 0)))
      \<and> map static_connection (connections net)
          = map static_connection (connections (initializeNetwork (config net) (\<lambda>k. 0))))"

text \<open>
  The structure the passes rely on: ids are unique, and every connection joins two nodes of
  the list, the destination one layer above the source.
\<close>

definition layered :: "NetworkNode list \<Rightarrow> NetworkConnection list \<Rightarrow> bool" where
  "layered ns conns =
     (distinct (map id_n ns) \<and>
      (\<forall>c \<in> set conns. \<exists>p < length ns. \<exists>q < length ns.
         id_n (ns ! p) = fromNodeId c \<and> id_n (ns ! q) = toNodeId c
         \<and> layer (ns ! q) = Suc (layer (ns ! p))))"

text \<open>
  The quantities the passes compute, read off a state: the activation and the error of the
  node with a given id, the weighted input of a node (its bias plus, over its incoming
  connections in order, source activation times weight) and its weighted error (over its
  outgoing connections in order, destination error times weight).
\<close>

definition activation_of :: "NetworkNode list \<Rightarrow> string \<Rightarrow> number" where
  "activation_of ns a = toNumber (map_option activation (find_node ns a))"

definition error_of :: "NetworkNode list \<Rightarrow> string \<Rightarrow> number" where
  "error_of ns a = toNumber (Option.bind (find_node ns a) error)"

definition weighted_input :: "NetworkNode list \<Rightarrow> NetworkConnection list \<Rightarrow> NetworkNode \<Rightarrow> number" where
  "weighted_input ns conns n =
     foldl (\<lambda>acc c. js_add acc (js_mul (activation_of ns (fromNodeId c)) (weight c)))
       (bias n) (filter (\<lambda>c. toNodeId c = id_n n) conns)"

definition weighted_error :: "NetworkNode list \<Rightarrow> NetworkConnection list \<Rightarrow> NetworkNode \<Rightarrow> number" where
  "weighted_error ns conns n =
     foldl (\<lambda>acc c. js_add acc (js_mul (error_of ns (toNodeId c)) (weight c)))
       (Num 0) (filter (\<lambda>c. fromNodeId c = id_n n) conns)"

text \<open>
  The nodes at the positions \<open>S\<close> take, all at once, the activation computed from the state
  \<open>ns\<close>; and every activation of the layers \<open>1\<close> to \<open>l - 1\<close> is the one computed from the
  state itself.
\<close>

definition activate_at ::
  "NetworkConfig \<Rightarrow> NetworkConnection list \<Rightarrow> nat set \<Rightarrow> NetworkNode list \<Rightarrow> NetworkNode list" where
  "activate_at cfg conns S ns =
     map (\<lambda>j. if j \<in> S then (ns ! j)\<lparr>activation := activate cfg (weighted_input ns conns (ns ! j))\<rparr>
               else ns ! j) [0..<length ns]"

definition activated_below ::
  "NetworkConfig \<Rightarrow> NetworkConnection list \<Rightarrow> nat \<Rightarrow> NetworkNode list \<Rightarrow> bool" where
  "activated_below cfg conns l ns =
     (\<forall>j < length ns. 1 \<le> layer (ns ! j) \<and> layer (ns ! j) < l \<longrightarrow>
        activation (ns ! j) = activate cfg (weighted_input ns conns (ns ! j)))"

text \<open>
  The same for the backward pass: the nodes at the positions \<open>S\<close> that are not typed input
  take, all at once, the error computed from the state \<open>ns\<close>; and every error of a node not
  typed input in the layers \<open>a\<close> to \<open>b - 1\<close> is the one computed from the state itself.
\<close>

definition backprop_error :: "NetworkConfig \<Rightarrow> NetworkConnection list \<Rightarrow> NetworkNode list \<Rightarrow> NetworkNode \<Rightarrow> number" where
  "backprop_error cfg conns ns n =
     js_mul (weighted_error ns conns n) (activateDerivative cfg (activation n))"

definition backprop_at ::
  "NetworkConfig \<Rightarrow> NetworkConnection list \<Rightarrow> nat set \<Rightarrow> NetworkNode list \<Rightarrow> NetworkNode list" where
  "backprop_at cfg conns S ns =
     map (\<lambda>j. if j \<in> S \<and> type_n (ns ! j) \<noteq> Input
               then (ns ! j)\<lparr>error := Some (backprop_error cfg conns ns (ns ! j))\<rparr>
               else ns ! j) [0..<length ns]"

definition errors_between ::
  "NetworkConfig \<Rightarrow> NetworkConnection list \<Rightarrow> nat \<Rightarrow> nat \<Rightarrow> NetworkNode list \<Rightarrow> bool" where
  "errors_between cfg conns a b ns =
     (\<forall>j < length ns. a \<le> layer (ns ! j) \<and> layer (ns ! j) < b \<and> type_n (ns ! j) \<noteq> Input \<longrightarrow>
        error (ns ! j) = Some (backprop_error cfg conns ns (ns ! j)))"

text \<open>What the last loop of \<open>backward\<close> does to one connection, given the final node state.\<close>

definition updated_connection ::
  "NetworkConfig \<Rightarrow> NetworkNode list \<Rightarrow> NetworkConnection \<Rightarrow> NetworkConnection" where
  "updated_connection cfg ns c =
     c\<lparr>gradient := js_mul (error_of ns (toNodeId c)) (activation_of ns (fromNodeId c)),
       weight := js_add (weight c)
         (js_mul (learningRate cfg)
            (js_mul (error_of ns (toNodeId c)) (activation_of ns (fromNodeId c))))\<rparr>"

text \<open>
  One input and two output neurons, no hidden layer, ReLU, learning rate \<open>1/2\<close>, every bias
  and weight \<open>1/2\<close>.
\<close>

definition cfg_two :: NetworkConfig where
  "cfg_two = \<lparr>inputSize = 1, hiddenLayers = [], outputSize = 2, learningRate = Num (1 / 2),
      activationFunction = ''relu''\<rparr>"

definition net_two :: NeuralNetwork where
  "net_two = initializeNetwork cfg_two (\<lambda>k. 3 / 4)"

section \<open>Loops and frames\<close>

lemma forEach_preserves:
  assumes "\<And>x s e s'. f x s = (e, s') \<Longrightarrow> g s' = g s"
  shows "forEach f xs s = (e, s') \<Longrightarrow> g s' = g s"
proof (induction xs arbitrary: s)
  case Nil
  then show ?case by simp
next
  case (Cons x xs)
  obtain e1 s1 where f1: "f x s = (e1, s1)" by (cases "f x s")
  have g1: "g s1 = g s" using assms f1 by blast
  show ?case
  proof (cases e1)
    case None
    with Cons.prems f1 have "forEach f xs s1 = (e, s')" by simp
    then have "g s' = g s1" by (rule Cons.IH)
    with g1 show ?thesis by simp
  next
    case (Some a)
    with Cons.prems f1 have "s' = s1" by simp
    with g1 show ?thesis by simp
  qed
qed

lemma map_update_same:
  assumes "f v = f (ns ! i)"
  shows "map f (ns[i := v]) = map f ns"
proof (cases "i < length ns")
  case True
  then have "(map f ns)[i := (map f ns) ! i] = map f ns"
    by (simp only: list_update_id)
  with True assms show ?thesis by (simp add: map_update)
next
  case False
  then show ?thesis by (simp add: list_update_beyond)
qed

lemma fold_update_preserves:
  assumes "\<And>p ns. f (upd p ns) = f (ns ! snd p)"
  shows "map f (fold (\<lambda>p ns. ns[snd p := upd p ns]) ps ns) = map f ns"
  by (induction ps arbitrary: ns) (simp_all add: map_update_same assms)

lemma set_inputs_frame:
  assumes "\<And>n v. f (n\<lparr>activation := v\<rparr>) = f n"
  shows "map f (set_inputs inputs ns) = map f ns"
proof -
  have "set_inputs inputs ns =
    fold (\<lambda>p ns. ns[snd p := (ns ! snd p)\<lparr>activation := or_zero (at_index inputs (fst p))\<rparr>])
      (enumerate 0 (indices_where (\<lambda>n. type_n n = Input) ns)) ns"
    by (simp add: set_inputs_def case_prod_unfold)
  then show ?thesis
    by (simp add: fold_update_preserves assms)
qed

lemma forward_node_frame:
  assumes "\<And>n v. f (n\<lparr>activation := v\<rparr>) = f n"
  shows "forward_node cfg conns i ns = (e, ns') \<Longrightarrow> map f ns' = map f ns"
  by (auto simp: forward_node_def Let_def map_update_same assms split: prod.splits option.splits)

lemma forward_layer_frame:
  assumes "\<And>n v. f (n\<lparr>activation := v\<rparr>) = f n"
  shows "forward_layer cfg conns l ns = (e, ns') \<Longrightarrow> map f ns' = map f ns"
  unfolding forward_layer_def
  using forEach_preserves [where f = "forward_node cfg conns" and g = "map f"]
    forward_node_frame [OF assms]
  by blast

lemma forward_frame:
  assumes "\<And>n v. f (n\<lparr>activation := v\<rparr>) = f n"
  shows "map f (nodes (snd (forward net inputs))) = map f (nodes net)"
proof -
  let ?ns = "set_inputs inputs (nodes net)"
  let ?ls = "case js_max (map layer ?ns) of None \<Rightarrow> [] | Some m \<Rightarrow> [1..<Suc m]"
  obtain e ns' where r: "forEach (forward_layer (config net) (connections net)) ?ls ?ns = (e, ns')"
    by (cases "forEach (forward_layer (config net) (connections net)) ?ls ?ns")
  have "map f ns' = map f ?ns"
    using forEach_preserves [where f = "forward_layer (config net) (connections net)"
        and g = "map f", OF _ r] forward_layer_frame [OF assms]
    by blast
  then have a: "map f ns' = map f (nodes net)"
    by (simp add: set_inputs_frame assms)
  have "nodes (snd (forward net inputs)) = ns'"
    using r by (cases e) (simp_all add: forward_def Let_def)
  with a show ?thesis by simp
qed

lemma forward_connections: "connections (snd (forward net inputs)) = connections net"
  by (simp add: forward_def Let_def split: prod.splits option.splits)

lemma forward_config: "config (snd (forward net inputs)) = config net"
  by (simp add: forward_def Let_def split: prod.splits option.splits)


lemma set_output_errors_frame:
  assumes "\<And>n v. f (n\<lparr>error := v\<rparr>) = f n"
  shows "map f (set_output_errors cfg expectedOutputs ns) = map f ns"
proof -
  have "set_output_errors cfg expectedOutputs ns =
    fold (\<lambda>p ns. ns[snd p := (ns ! snd p)\<lparr>error := Some (js_mul
             (js_sub (toNumber (at_index expectedOutputs (fst p))) (activation (ns ! snd p)))
             (activateDerivative cfg (activation (ns ! snd p))))\<rparr>])
      (enumerate 0 (indices_where (\<lambda>n. type_n n = Output) ns)) ns"
    by (simp add: set_output_errors_def case_prod_unfold)
  then show ?thesis
    by (simp add: fold_update_preserves assms)
qed

lemma backward_node_frame:
  assumes "\<And>n v. f (n\<lparr>error := v\<rparr>) = f n"
  shows "backward_node cfg conns i ns = (e, ns') \<Longrightarrow> map f ns' = map f ns"
  by (auto simp: backward_node_def Let_def map_update_same assms
      split: prod.splits option.splits if_splits)

lemma backward_layer_frame:
  assumes "\<And>n v. f (n\<lparr>error := v\<rparr>) = f n"
  shows "backward_layer cfg conns l ns = (e, ns') \<Longrightarrow> map f ns' = map f ns"
  unfolding backward_layer_def
  using forEach_preserves [where f = "backward_node cfg conns" and g = "map f"]
    backward_node_frame [OF assms]
  by blast

lemma update_connection_frame:
  assumes "\<And>c g w. f (c\<lparr>gradient := g, weight := w\<rparr>) = f c"
  shows "update_connection cfg ns k conns = (e, conns') \<Longrightarrow> map f conns' = map f conns"
  by (auto simp: update_connection_def Let_def map_update_same assms
      split: prod.splits option.splits)

lemma backward_cases:
  obtains e ns' where
      "forEach (backward_layer (config net) (connections net))
         (case js_max (map layer (set_output_errors (config net) ts (nodes net))) of
            None \<Rightarrow> [] | Some m \<Rightarrow> rev [0..<m])
         (set_output_errors (config net) ts (nodes net)) = (Some e, ns')"
      "backward net ts = (Some e, net\<lparr>nodes := ns'\<rparr>)"
  | ns' e conns' where
      "forEach (backward_layer (config net) (connections net))
         (case js_max (map layer (set_output_errors (config net) ts (nodes net))) of
            None \<Rightarrow> [] | Some m \<Rightarrow> rev [0..<m])
         (set_output_errors (config net) ts (nodes net)) = (None, ns')"
      "forEach (update_connection (config net) ns') [0..<length (connections net)]
         (connections net) = (e, conns')"
      "backward net ts = (e, net\<lparr>nodes := ns', connections := conns'\<rparr>)"
proof -
  let ?ns = "set_output_errors (config net) ts (nodes net)"
  let ?ls = "case js_max (map layer ?ns) of None \<Rightarrow> [] | Some m \<Rightarrow> rev [0..<m]"
  obtain e ns' where r: "forEach (backward_layer (config net) (connections net)) ?ls ?ns = (e, ns')"
    by (cases "forEach (backward_layer (config net) (connections net)) ?ls ?ns")
  show thesis
  proof (cases e)
    case (Some x)
    with r have "backward net ts = (Some x, net\<lparr>nodes := ns'\<rparr>)"
      by (simp add: backward_def Let_def)
    with r Some that(1) show thesis by blast
  next
    case None
    obtain e2 conns' where u: "forEach (update_connection (config net) ns')
        [0..<length (connections net)] (connections net) = (e2, conns')"
      by (cases "forEach (update_connection (config net) ns')
        [0..<length (connections net)] (connections net)")
    with r None have "backward net ts = (e2, net\<lparr>nodes := ns', connections := conns'\<rparr>)"
      by (simp add: backward_def Let_def)
    with r None u that(2) show thesis by blast
  qed
qed

lemma backward_layers_frame:
  assumes "\<And>n v. f (n\<lparr>error := v\<rparr>) = f n"
    and "forEach (backward_layer cfg conns) ls ns = (e, ns')"
  shows "map f ns' = map f ns"
  using forEach_preserves [where f = "backward_layer cfg conns" and g = "map f", OF _ assms(2)]
    backward_layer_frame [OF assms(1)]
  by blast

lemma backward_frame:
  assumes "\<And>n v. f (n\<lparr>error := v\<rparr>) = f n"
  shows "map f (nodes (snd (backward net ts))) = map f (nodes net)"
proof (cases rule: backward_cases [of net ts])
  case (1 e ns')
  from backward_layers_frame [OF assms 1(1)] 1(2) show ?thesis
    by (simp add: set_output_errors_frame assms)
next
  case (2 ns' e conns')
  from backward_layers_frame [OF assms 2(1)] 2(3) show ?thesis
    by (simp add: set_output_errors_frame assms)
qed

lemma update_connections_frame:
  assumes "\<And>c g w. f (c\<lparr>gradient := g, weight := w\<rparr>) = f c"
    and "forEach (update_connection cfg ns) ks conns = (e, conns')"
  shows "map f conns' = map f conns"
  using forEach_preserves [where f = "update_connection cfg ns" and g = "map f", OF _ assms(2)]
    update_connection_frame [OF assms(1)]
  by blast

lemma backward_connections_frame:
  assumes "\<And>c g w. f (c\<lparr>gradient := g, weight := w\<rparr>) = f c"
  shows "map f (connections (snd (backward net ts))) = map f (connections net)"
proof (cases rule: backward_cases [of net ts])
  case (1 e ns')
  then show ?thesis by simp
next
  case (2 ns' e conns')
  from update_connections_frame [OF assms 2(2)] 2(3) show ?thesis by simp
qed

lemma backward_config: "config (snd (backward net ts)) = config net"
  by (cases rule: backward_cases [of net ts]) simp_all


lemmas eval_defs = net_ex_def cfg_ex_def initializeNetwork_def layerSizes_def Let_def new_node_def
   create_connections_def connection_pairs_def new_connection_def layerType_def string_of_nat.simps digit_char_def
   forward_def set_inputs_def indices_where_def at_index_def forward_layer_def forward_node_def add_incoming_def find_node_def activate_def
   backward_def set_output_errors_def backward_layer_def backward_node_def add_outgoing_def update_connection_def activateDerivative_def


section \<open>The built topology\<close>


lemma digit_char_inj:
  assumes "a < 10" "b < 10" "digit_char a = digit_char b"
  shows "a = b"
proof -
  have d: "distinct ''0123456789''" by simp
  have "length ''0123456789'' = 10" by simp
  with assms d show ?thesis
    unfolding digit_char_def by (metis nth_eq_iff_index_eq)
qed

lemma string_of_nat_nonempty: "string_of_nat n \<noteq> []"
  by (subst string_of_nat.simps) simp

lemma string_of_nat_inj: "string_of_nat m = string_of_nat n \<Longrightarrow> m = n"
proof (induction n arbitrary: m rule: less_induct)
  case (less n)
  show ?case
  proof (cases "n < 10")
    case n: True
    show ?thesis
    proof (cases "m < 10")
      case True
      with n less.prems show ?thesis
        by (simp add: string_of_nat.simps [of m] string_of_nat.simps [of n] digit_char_inj)
    next
      case False
      with n less.prems string_of_nat_nonempty [of "m div 10"] show ?thesis
        by (simp add: string_of_nat.simps [of m] string_of_nat.simps [of n])
    qed
  next
    case n: False
    show ?thesis
    proof (cases "m < 10")
      case True
      with n less.prems string_of_nat_nonempty [of "n div 10"] show ?thesis
        by (simp add: string_of_nat.simps [of m] string_of_nat.simps [of n])
    next
      case False
      with n less.prems have a: "string_of_nat (m div 10) = string_of_nat (n div 10)"
        and b: "digit_char (m mod 10) = digit_char (n mod 10)"
        by (simp_all add: string_of_nat.simps [of m] string_of_nat.simps [of n])
      from n have "n div 10 < n" by simp
      from less.IH [OF this a] have "m div 10 = n div 10" .
      moreover from b have "m mod 10 = n mod 10" by (simp add: digit_char_inj)
      ultimately show ?thesis by (metis div_mult_mod_eq)
    qed
  qed
qed




lemma id_new_node [simp]: "id_n (new_node rnd K l j i) = ''node-'' @ string_of_nat j"
  and layer_new_node [simp]: "layer (new_node rnd K l j i) = l"
  and type_new_node [simp]: "type_n (new_node rnd K l j i) = layerType K l"
  by (simp_all add: new_node_def)

lemma length_create_nodes [simp]:
  "length (create_nodes rnd K l nid szs) = sum_list szs"
  by (induction szs arbitrary: l nid) simp_all

lemma ids_create_nodes:
  "map id_n (create_nodes rnd K l nid szs)
   = map (\<lambda>j. ''node-'' @ string_of_nat j) [nid..<nid + sum_list szs]"
proof (induction szs arbitrary: l nid)
  case Nil
  then show ?case by simp
next
  case (Cons sz szs)
  have split: "[nid..<nid + (sz + sum_list szs)]
      = [nid..<nid + sz] @ [nid + sz..<nid + sz + sum_list szs]"
    using upt_add_eq_append [of nid "nid + sz" "sum_list szs"] by (simp add: add.assoc)
  have shift: "[nid..<nid + sz] = map (\<lambda>i. nid + i) [0..<sz]"
    by (induction sz) simp_all
  have first: "map (\<lambda>i. ''node-'' @ string_of_nat (nid + i)) [0..<sz]
      = map (\<lambda>j. ''node-'' @ string_of_nat j) [nid..<nid + sz]"
    unfolding shift by (simp add: o_def)
  have "map id_n (create_nodes rnd K l nid (sz # szs))
      = map (\<lambda>i. ''node-'' @ string_of_nat (nid + i)) [0..<sz]
        @ map (\<lambda>j. ''node-'' @ string_of_nat j) [nid + sz..<nid + sz + sum_list szs]"
    by (simp add: Cons.IH o_def)
  also have "\<dots> = map (\<lambda>j. ''node-'' @ string_of_nat j) [nid..<nid + (sz + sum_list szs)]"
    unfolding first split by simp
  finally show ?case by simp
qed


lemma distinct_ids_create_nodes: "distinct (map id_n (create_nodes rnd K l nid szs))"
  unfolding ids_create_nodes
  by (simp add: distinct_map inj_on_def string_of_nat_inj)

lemma layers_create_nodes:
  "map layer (create_nodes rnd K l nid szs)
   = concat (map (\<lambda>(l', sz). replicate sz l') (enumerate l szs))"
  by (induction szs arbitrary: l nid) (simp_all add: o_def map_replicate_const)

lemma types_create_nodes:
  "map type_n (create_nodes rnd K l nid szs)
   = concat (map (\<lambda>(l', sz). replicate sz (layerType K l')) (enumerate l szs))"
  by (induction szs arbitrary: l nid) (simp_all add: o_def map_replicate_const)

lemma type_of_layer_create_nodes:
  "n \<in> set (create_nodes rnd K l nid szs) \<Longrightarrow> type_n n = layerType K (layer n)"
  by (induction szs arbitrary: l nid) auto

lemma layer_bounds_create_nodes:
  "n \<in> set (create_nodes rnd K l nid szs) \<Longrightarrow> l \<le> layer n \<and> layer n < l + length szs"
  by (induction szs arbitrary: l nid) fastforce+

lemma count_layer_create_nodes:
  "length (filter (\<lambda>n. layer n = l') (create_nodes rnd K l nid szs))
   = (if l \<le> l' \<and> l' < l + length szs then szs ! (l' - l) else 0)"
proof (induction szs arbitrary: l nid)
  case Nil
  then show ?case by simp
next
  case (Cons sz szs)
  have "length (filter (\<lambda>n. layer n = l') (map (\<lambda>i. new_node rnd K l (nid + i) i) [0..<sz]))
      = (if l = l' then sz else 0)"
    by (simp add: filter_map o_def)
  then show ?case
    by (auto simp: Cons.IH nth_Cons')
qed

lemma set_connection_pairs:
  "set (connection_pairs ns K)
   = {(a, b). a \<in> set ns \<and> b \<in> set ns \<and> layer b = Suc (layer a) \<and> layer a < K - 1}"
  by (auto simp: connection_pairs_def)

lemma length_connection_pairs:
  "length (connection_pairs ns K)
   = (\<Sum>l\<leftarrow>[0..<K - 1]. length (filter (\<lambda>n. layer n = l) ns)
                           * length (filter (\<lambda>n. layer n = Suc l) ns))"
  by (simp add: connection_pairs_def length_concat o_def)

lemma length_create_connections [simp]:
  "length (create_connections rnd d ns K) = length (connection_pairs ns K)"
  by (simp add: create_connections_def)

lemma endpoints_create_connections:
  "map (\<lambda>c. (fromNodeId c, toNodeId c)) (create_connections rnd d ns K)
   = map (\<lambda>(a, b). (id_n a, id_n b)) (connection_pairs ns K)"
proof -
  have "map (\<lambda>c. (fromNodeId c, toNodeId c)) (create_connections rnd d ns K)
      = map ((\<lambda>(a, b). (id_n a, id_n b)) \<circ> snd) (enumerate 0 (connection_pairs ns K))"
    by (simp add: create_connections_def new_connection_def case_prod_unfold o_def)
  also have "\<dots> = map (\<lambda>(a, b). (id_n a, id_n b)) (connection_pairs ns K)"
    by (simp only: map_map [symmetric] map_snd_enumerate)
  finally show ?thesis .
qed

lemma connection_between_iff:
  "(\<exists>c \<in> set (create_connections rnd d ns K). fromNodeId c = i \<and> toNodeId c = j)
   = (\<exists>(a, b) \<in> set (connection_pairs ns K). id_n a = i \<and> id_n b = j)"
proof -
  have "(\<exists>c \<in> set (create_connections rnd d ns K). fromNodeId c = i \<and> toNodeId c = j)
      = ((i, j) \<in> set (map (\<lambda>c. (fromNodeId c, toNodeId c)) (create_connections rnd d ns K)))"
    by auto
  also have "\<dots> = ((i, j) \<in> set (map (\<lambda>(a, b). (id_n a, id_n b)) (connection_pairs ns K)))"
    by (simp only: endpoints_create_connections)
  also have "\<dots> = (\<exists>(a, b) \<in> set (connection_pairs ns K). id_n a = i \<and> id_n b = j)"
    by auto
  finally show ?thesis .
qed

lemma sum_adjacent_products:
  "(\<Sum>l\<leftarrow>[0..<length ls - 1]. ls ! l * ls ! Suc l) = (\<Sum>(a, b)\<leftarrow>zip ls (tl ls). a * b)"
proof -
  have "zip ls (tl ls) = map (\<lambda>l. (ls ! l, ls ! Suc l)) [0..<length ls - 1]"
    by (rule nth_equalityI) (auto simp: nth_tl)
  then show ?thesis by (simp add: o_def)
qed

lemma nodes_initializeNetwork:
  "nodes (initializeNetwork cfg rnd)
   = create_nodes rnd (length (layerSizes cfg)) 0 0 (layerSizes cfg)"
  and connections_initializeNetwork:
  "connections (initializeNetwork cfg rnd)
   = create_connections rnd (sum_list (layerSizes cfg))
       (create_nodes rnd (length (layerSizes cfg)) 0 0 (layerSizes cfg))
       (length (layerSizes cfg))"
  and config_initializeNetwork: "config (initializeNetwork cfg rnd) = cfg"
  by (simp_all add: initializeNetwork_def Let_def)

lemma length_connections_initializeNetwork:
  "length (connections (initializeNetwork cfg rnd))
   = (\<Sum>(a, b)\<leftarrow>zip (layerSizes cfg) (tl (layerSizes cfg)). a * b)"
proof -
  have "length (connections (initializeNetwork cfg rnd))
      = (\<Sum>l\<leftarrow>[0..<length (layerSizes cfg) - 1]. layerSizes cfg ! l * layerSizes cfg ! Suc l)"
    unfolding connections_initializeNetwork length_create_connections length_connection_pairs
    by (rule arg_cong [where f = sum_list], rule map_cong)
       (auto simp: count_layer_create_nodes)
  then show ?thesis by (simp only: sum_adjacent_products)
qed

lemma concat_replicate_const:
  "\<forall>p \<in> set ps. f (fst p) = c \<Longrightarrow>
   concat (map (\<lambda>(l, sz). replicate sz (f l)) ps) = replicate (sum_list (map snd ps)) c"
  by (induction ps) (auto simp: replicate_add)

lemma hidden_layer_types:
  "concat (map (\<lambda>(l, sz). replicate sz (layerType (Suc (Suc (length hs))) l)) (enumerate (Suc 0) hs))
   = replicate (sum_list hs) Hidden"
proof -
  have "\<forall>p \<in> set (enumerate (Suc 0) hs). layerType (Suc (Suc (length hs))) (fst p) = Hidden"
    by (auto simp: in_set_enumerate_eq layerType_def)
  from concat_replicate_const [of "enumerate (Suc 0) hs" "layerType (Suc (Suc (length hs)))", OF this]
  show ?thesis by simp
qed

lemma built_topology:
  "length (nodes (initializeNetwork cfg rnd))
     = inputSize cfg + sum_list (hiddenLayers cfg) + outputSize cfg
   \<and> length (connections (initializeNetwork cfg rnd))
     = (\<Sum>(a, b)\<leftarrow>zip (inputSize cfg # hiddenLayers cfg) (hiddenLayers cfg @ [outputSize cfg]). a * b)
   \<and> map type_n (nodes (initializeNetwork cfg rnd))
     = replicate (inputSize cfg) Input @ replicate (sum_list (hiddenLayers cfg)) Hidden
       @ replicate (outputSize cfg) Output
   \<and> map layer (nodes (initializeNetwork cfg rnd))
     = replicate (inputSize cfg) 0
       @ concat (map (\<lambda>(l, h). replicate h l) (enumerate 1 (hiddenLayers cfg)))
       @ replicate (outputSize cfg) (Suc (length (hiddenLayers cfg)))"
proof -
  have zip: "zip (layerSizes cfg) (tl (layerSizes cfg))
      = zip (inputSize cfg # hiddenLayers cfg) (hiddenLayers cfg @ [outputSize cfg])"
    using zip_append1 [of "inputSize cfg # hiddenLayers cfg" "[outputSize cfg]"
        "hiddenLayers cfg @ [outputSize cfg]"]
    by (simp add: layerSizes_def)
  have a: "length (nodes (initializeNetwork cfg rnd))
     = inputSize cfg + sum_list (hiddenLayers cfg) + outputSize cfg"
    by (simp add: nodes_initializeNetwork layerSizes_def)
  have b: "length (connections (initializeNetwork cfg rnd))
     = (\<Sum>(a, b)\<leftarrow>zip (inputSize cfg # hiddenLayers cfg) (hiddenLayers cfg @ [outputSize cfg]). a * b)"
    by (simp only: length_connections_initializeNetwork zip)
  have c: "map type_n (nodes (initializeNetwork cfg rnd))
     = replicate (inputSize cfg) Input @ replicate (sum_list (hiddenLayers cfg)) Hidden
       @ replicate (outputSize cfg) Output"
    by (simp add: nodes_initializeNetwork types_create_nodes layerSizes_def enumerate_append_eq
        hidden_layer_types o_def map_replicate_const) (simp add: layerType_def)
  have d: "map layer (nodes (initializeNetwork cfg rnd))
     = replicate (inputSize cfg) 0
       @ concat (map (\<lambda>(l, h). replicate h l) (enumerate 1 (hiddenLayers cfg)))
       @ replicate (outputSize cfg) (Suc (length (hiddenLayers cfg)))"
    by (simp add: nodes_initializeNetwork layers_create_nodes layerSizes_def enumerate_append_eq
        o_def map_replicate_const)
  from a b c d show ?thesis by blast
qed

lemma id_determines_node:
  assumes "distinct (map id_n ns)" "a \<in> set ns" "b \<in> set ns" "id_n a = id_n b"
  shows "a = b"
  using assms by (meson distinct_map inj_on_def)

lemma adjacent_layers_connected_built:
  "adjacent_layers_connected (initializeNetwork cfg rnd)"
proof -
  let ?K = "length (layerSizes cfg)"
  let ?ns = "create_nodes rnd ?K 0 0 (layerSizes cfg)"
  have d: "distinct (map id_n ?ns)" by (rule distinct_ids_create_nodes)
  have "(\<exists>c \<in> set (create_connections rnd (sum_list (layerSizes cfg)) ?ns ?K).
            fromNodeId c = id_n a \<and> toNodeId c = id_n b) = (Suc (layer a) = layer b)"
    if a: "a \<in> set ?ns" and b: "b \<in> set ?ns" for a b
  proof
    assume "\<exists>c \<in> set (create_connections rnd (sum_list (layerSizes cfg)) ?ns ?K).
            fromNodeId c = id_n a \<and> toNodeId c = id_n b"
    then obtain a' b' where p: "(a', b') \<in> set (connection_pairs ?ns ?K)"
      and i: "id_n a' = id_n a" "id_n b' = id_n b"
      unfolding connection_between_iff by blast
    from p have m: "a' \<in> set ?ns" "b' \<in> set ?ns" and l: "layer b' = Suc (layer a')"
      by (simp_all add: set_connection_pairs)
    from id_determines_node [OF d m(1) a i(1)] id_determines_node [OF d m(2) b i(2)] l
    show "Suc (layer a) = layer b" by simp
  next
    assume l: "Suc (layer a) = layer b"
    from layer_bounds_create_nodes [OF b] l have "layer a < ?K - 1" by simp
    with a b l have "(a, b) \<in> set (connection_pairs ?ns ?K)"
      by (simp add: set_connection_pairs)
    then show "\<exists>c \<in> set (create_connections rnd (sum_list (layerSizes cfg)) ?ns ?K).
            fromNodeId c = id_n a \<and> toNodeId c = id_n b"
      unfolding connection_between_iff by blast
  qed
  with d show ?thesis
    by (simp add: adjacent_layers_connected_def nodes_initializeNetwork
        connections_initializeNetwork)
qed

lemma adjacent_layers_connected_alt:
  "adjacent_layers_connected net =
     (distinct (map fst (map (\<lambda>n. (id_n n, layer n)) (nodes net))) \<and>
      (\<forall>p \<in> set (map (\<lambda>n. (id_n n, layer n)) (nodes net)).
       \<forall>q \<in> set (map (\<lambda>n. (id_n n, layer n)) (nodes net)).
         ((fst p, fst q) \<in> set (map (\<lambda>c. (fromNodeId c, toNodeId c)) (connections net)))
         = (Suc (snd p) = snd q)))"
proof -
  have "(\<exists>c \<in> set (connections net). fromNodeId c = i \<and> toNodeId c = j)
      = ((i, j) \<in> set (map (\<lambda>c. (fromNodeId c, toNodeId c)) (connections net)))" for i j
    by auto
  then show ?thesis
    by (simp add: adjacent_layers_connected_def o_def)
qed

lemma adjacent_layers_connected_cong:
  assumes "map id_n (nodes net') = map id_n (nodes net)"
    and "map layer (nodes net') = map layer (nodes net)"
    and "map fromNodeId (connections net') = map fromNodeId (connections net)"
    and "map toNodeId (connections net') = map toNodeId (connections net)"
  shows "adjacent_layers_connected net' = adjacent_layers_connected net"
proof -
  have zn: "map (\<lambda>n. (id_n n, layer n)) ns = zip (map id_n ns) (map layer ns)"
    for ns :: "NetworkNode list"
    by (induction ns) simp_all
  have n: "map (\<lambda>n. (id_n n, layer n)) (nodes net')
      = map (\<lambda>n. (id_n n, layer n)) (nodes net)"
    unfolding zn assms(1) assms(2) ..
  have zc: "map (\<lambda>c. (fromNodeId c, toNodeId c)) cs = zip (map fromNodeId cs) (map toNodeId cs)"
    for cs :: "NetworkConnection list"
    by (induction cs) simp_all
  have c: "map (\<lambda>c. (fromNodeId c, toNodeId c)) (connections net')
      = map (\<lambda>c. (fromNodeId c, toNodeId c)) (connections net)"
    unfolding zc assms(3) assms(4) ..
  show ?thesis
    unfolding adjacent_layers_connected_alt n c ..
qed

lemma forward_keeps_connectivity:
  "adjacent_layers_connected (snd (forward net inputs)) = adjacent_layers_connected net"
  by (rule adjacent_layers_connected_cong) (simp_all add: forward_frame forward_connections)

lemma backward_keeps_connectivity:
  "adjacent_layers_connected (snd (backward net ts)) = adjacent_layers_connected net"
  by (rule adjacent_layers_connected_cong)
     (simp_all add: backward_frame backward_connections_frame)

section \<open>Loops over a layered state\<close>

lemma forEach_append:
  "forEach f (xs @ ys) s =
     (case forEach f xs s of (Some e, s') \<Rightarrow> (Some e, s') | (None, s') \<Rightarrow> forEach f ys s')"
  by (induction xs arbitrary: s) (auto split: prod.splits option.splits)

lemma find_node_nth:
  assumes "distinct (map id_n ns)" "p < length ns"
  shows "find_node ns (id_n (ns ! p)) = Some (ns ! p)"
proof -
  have "\<exists>i < length ns. id_n (ns ! i) = id_n (ns ! p) \<and> Some (ns ! p) = Some (ns ! i)
        \<and> (\<forall>j < i. id_n (ns ! j) \<noteq> id_n (ns ! p))"
  proof (intro exI [of _ p] conjI allI impI)
    fix j assume "j < p"
    with assms show "id_n (ns ! j) \<noteq> id_n (ns ! p)"
      by (simp add: distinct_conv_nth)
  qed (use assms in simp_all)
  then show ?thesis
    unfolding find_node_def by (simp add: find_Some_iff)
qed

lemma filter_conv_indices: "filter P xs = map (\<lambda>i. xs ! i) (indices_where P xs)"
proof -
  have "map (\<lambda>i. xs ! i) (filter (\<lambda>i. P (xs ! i)) [0..<length xs])
      = filter P (map (\<lambda>i. xs ! i) [0..<length xs])"
    by (simp add: filter_map o_def)
  then show ?thesis
    by (simp add: indices_where_def map_nth)
qed

lemma indices_where_props:
  "distinct (indices_where P xs)"
  "set (indices_where P xs) = {i. i < length xs \<and> P (xs ! i)}"
  by (auto simp: indices_where_def)

lemma indices_where_cong:
  "map f xs' = map f xs \<Longrightarrow> indices_where (\<lambda>x. Q (f x)) xs' = indices_where (\<lambda>x. Q (f x)) xs"
proof -
  assume m: "map f xs' = map f xs"
  then have l: "length xs' = length xs" by (rule map_eq_imp_length_eq)
  have "f (xs' ! i) = f (xs ! i)" if "i < length xs" for i
    using m that l by (metis nth_map)
  with l show ?thesis
    unfolding indices_where_def by (auto intro!: filter_cong)
qed

lemma fold_enumerate_update:
  assumes "distinct is" "\<forall>i \<in> set is. i < length ns"
  shows "length (fold (\<lambda>(k, i) ns. ns[i := h k (ns ! i)]) (enumerate k0 is) ns) = length ns
    \<and> (\<forall>k < length is. fold (\<lambda>(k, i) ns. ns[i := h k (ns ! i)]) (enumerate k0 is) ns ! (is ! k)
          = h (k0 + k) (ns ! (is ! k)))
    \<and> (\<forall>j. j \<notin> set is \<longrightarrow>
          fold (\<lambda>(k, i) ns. ns[i := h k (ns ! i)]) (enumerate k0 is) ns ! j = ns ! j)"
  using assms
proof (induction "is" arbitrary: k0 ns)
  case Nil
  then show ?case by simp
next
  case (Cons i "is")
  let ?ns1 = "ns[i := h k0 (ns ! i)]"
  let ?r = "fold (\<lambda>(k, i) ns. ns[i := h k (ns ! i)]) (enumerate (Suc k0) is) ?ns1"
  from Cons.prems have d: "distinct is" "i \<notin> set is" and b: "\<forall>i \<in> set is. i < length ?ns1"
    and i: "i < length ns"
    by simp_all
  from Cons.IH [OF d(1) b, of "Suc k0"]
  have l: "length ?r = length ns"
    and at: "\<And>k. k < length is \<Longrightarrow> ?r ! (is ! k) = h (Suc k0 + k) (?ns1 ! (is ! k))"
    and out: "\<And>j. j \<notin> set is \<Longrightarrow> ?r ! j = ?ns1 ! j"
    by simp_all
  have "?r ! ((i # is) ! k) = h (k0 + k) (ns ! ((i # is) ! k))" if "k < length (i # is)" for k
  proof (cases k)
    case 0
    with out [OF d(2)] i show ?thesis by simp
  next
    case (Suc k')
    with that have k': "k' < length is" by simp
    then have "is ! k' \<noteq> i" using d(2) by (metis nth_mem)
    with at [OF k'] Suc show ?thesis by simp
  qed
  moreover have "?r ! j = ns ! j" if "j \<notin> set (i # is)" for j
    using that out [of j] by simp
  ultimately show ?case using l by simp
qed

lemma nth_of_map_eq:
  assumes "map f xs' = map f xs" "i < length xs"
  shows "f (xs' ! i) = f (xs ! i)"
proof -
  from assms(1) have "length xs' = length xs" by (rule map_eq_imp_length_eq)
  with assms show ?thesis by (metis nth_map)
qed

lemma layered_cong:
  assumes "layered ns conns" "map id_n ns' = map id_n ns" "map layer ns' = map layer ns"
  shows "layered ns' conns"
proof -
  from assms(2) have l: "length ns' = length ns" by (rule map_eq_imp_length_eq)
  have "\<exists>p < length ns'. \<exists>q < length ns'.
         id_n (ns' ! p) = fromNodeId c \<and> id_n (ns' ! q) = toNodeId c
         \<and> layer (ns' ! q) = Suc (layer (ns' ! p))" if "c \<in> set conns" for c
  proof -
    from assms(1) that obtain p q where pq: "p < length ns" "q < length ns"
      "id_n (ns ! p) = fromNodeId c" "id_n (ns ! q) = toNodeId c"
      "layer (ns ! q) = Suc (layer (ns ! p))"
      unfolding layered_def by blast
    have "id_n (ns' ! p) = fromNodeId c" "id_n (ns' ! q) = toNodeId c"
      "layer (ns' ! q) = Suc (layer (ns' ! p))"
      using nth_of_map_eq [OF assms(2)] nth_of_map_eq [OF assms(3)] pq by simp_all
    with pq(1,2) l show ?thesis by auto
  qed
  with assms(1) show ?thesis
    unfolding layered_def assms(2) by blast
qed

lemma layered_nth_eq:
  assumes "layered ns conns" "p < length ns" "q < length ns" "id_n (ns ! p) = id_n (ns ! q)"
  shows "p = q"
proof -
  from assms(1) have "distinct (map id_n ns)" by (simp add: layered_def)
  with assms(2-4) show ?thesis
    using nth_eq_iff_index_eq [of "map id_n ns" p q] by simp
qed

lemma layered_find_nth:
  "layered ns conns \<Longrightarrow> p < length ns \<Longrightarrow> find_node ns (id_n (ns ! p)) = Some (ns ! p)"
  by (simp add: layered_def find_node_nth)

lemma activation_of_nth:
  "layered ns conns \<Longrightarrow> p < length ns \<Longrightarrow> activation_of ns (id_n (ns ! p)) = activation (ns ! p)"
  by (simp add: activation_of_def layered_find_nth)

lemma layered_endpoints_found:
  assumes "layered ns conns" "c \<in> set conns"
  shows "find_node ns (fromNodeId c) \<noteq> None" "find_node ns (toNodeId c) \<noteq> None"
proof -
  from assms obtain p q where "p < length ns" "q < length ns"
    "id_n (ns ! p) = fromNodeId c" "id_n (ns ! q) = toNodeId c"
    unfolding layered_def by blast
  with layered_find_nth [OF assms(1), of p] layered_find_nth [OF assms(1), of q]
  show "find_node ns (fromNodeId c) \<noteq> None" "find_node ns (toNodeId c) \<noteq> None"
    by simp_all
qed

lemma add_incoming_loop:
  "\<forall>c \<in> set cs. find_node ns (fromNodeId c) \<noteq> None \<Longrightarrow>
   forEach (add_incoming ns) cs acc
   = (None, foldl (\<lambda>acc c. js_add acc (js_mul (activation_of ns (fromNodeId c)) (weight c))) acc cs)"
  by (induction cs arbitrary: acc) (auto simp: add_incoming_def activation_of_def)

lemma forward_node_layered:
  assumes "layered ns conns"
  shows "forward_node cfg conns i ns
         = (None, ns[i := (ns ! i)\<lparr>activation := activate cfg (weighted_input ns conns (ns ! i))\<rparr>])"
proof -
  have "\<forall>c \<in> set (filter (\<lambda>c. toNodeId c = id_n (ns ! i)) conns). find_node ns (fromNodeId c) \<noteq> None"
    using layered_endpoints_found(1) [OF assms] by simp
  from add_incoming_loop [OF this] show ?thesis
    by (simp add: forward_node_def Let_def weighted_input_def)
qed

lemma weighted_input_cong:
  assumes lay: "layered ns conns"
    and ids: "map id_n ns' = map id_n ns" and lys: "map layer ns' = map layer ns"
    and j: "j < length ns" and b: "bias (ns' ! j) = bias (ns ! j)"
    and below: "\<forall>p < length ns. Suc (layer (ns ! p)) = layer (ns ! j) \<longrightarrow>
                 activation (ns' ! p) = activation (ns ! p)"
  shows "weighted_input ns' conns (ns' ! j) = weighted_input ns conns (ns ! j)"
proof -
  from ids have len: "length ns' = length ns" by (rule map_eq_imp_length_eq)
  have lay': "layered ns' conns" by (rule layered_cong [OF lay ids lys])
  have idj: "id_n (ns' ! j) = id_n (ns ! j)" by (rule nth_of_map_eq [OF ids j])
  have src: "activation_of ns' (fromNodeId c) = activation_of ns (fromNodeId c)"
    if c: "c \<in> set conns" and t: "toNodeId c = id_n (ns ! j)" for c
  proof -
    from lay c obtain p q where pq: "p < length ns" "q < length ns"
      "id_n (ns ! p) = fromNodeId c" "id_n (ns ! q) = toNodeId c"
      "layer (ns ! q) = Suc (layer (ns ! p))"
      unfolding layered_def by blast
    from layered_nth_eq [OF lay pq(2) j] pq(4) t have "q = j" by simp
    with pq(5) below pq(1) have a: "activation (ns' ! p) = activation (ns ! p)" by simp
    have "activation_of ns' (fromNodeId c) = activation_of ns' (id_n (ns' ! p))"
      using nth_of_map_eq [OF ids pq(1)] pq(3) by simp
    also have "\<dots> = activation (ns' ! p)"
      using activation_of_nth [OF lay', of p] pq(1) len by simp
    also have "\<dots> = activation_of ns (id_n (ns ! p))"
      using activation_of_nth [OF lay pq(1)] a by simp
    finally show ?thesis using pq(3) by simp
  qed
  show ?thesis
    unfolding weighted_input_def idj b
    by (rule foldl_cong) (auto simp: src)
qed

lemma length_activate_at [simp]: "length (activate_at cfg conns S ns) = length ns"
  by (simp add: activate_at_def)

lemma nth_activate_at:
  "j < length ns \<Longrightarrow> activate_at cfg conns S ns ! j
     = (if j \<in> S then (ns ! j)\<lparr>activation := activate cfg (weighted_input ns conns (ns ! j))\<rparr>
        else ns ! j)"
  by (simp add: activate_at_def)

lemma forward_indices_layered:
  assumes "layered ns conns" "distinct ks" "\<forall>i \<in> set ks. i < length ns \<and> layer (ns ! i) = l"
  shows "forEach (forward_node cfg conns) ks ns = (None, activate_at cfg conns (set ks) ns)"
  using assms
proof (induction ks arbitrary: ns)
  case Nil
  have "activate_at cfg conns {} ns = ns"
    by (rule nth_equalityI) (simp_all add: nth_activate_at)
  then show ?case by simp
next
  case (Cons i ks)
  let ?v = "(ns ! i)\<lparr>activation := activate cfg (weighted_input ns conns (ns ! i))\<rparr>"
  let ?ns1 = "ns[i := ?v]"
  from Cons.prems have i: "i < length ns" "layer (ns ! i) = l" "i \<notin> set ks" "distinct ks"
    by simp_all
  have ids: "map id_n ?ns1 = map id_n ns" and lys: "map layer ?ns1 = map layer ns"
    by (simp_all add: map_update_same)
  have lay1: "layered ?ns1 conns" by (rule layered_cong [OF Cons.prems(1) ids lys])
  have rest: "\<forall>k \<in> set ks. k < length ?ns1 \<and> layer (?ns1 ! k) = l"
    using Cons.prems(3) i by (auto simp: nth_list_update)
  have "forEach (forward_node cfg conns) (i # ks) ns = forEach (forward_node cfg conns) ks ?ns1"
    by (simp add: forward_node_layered [OF Cons.prems(1)])
  also have "\<dots> = (None, activate_at cfg conns (set ks) ?ns1)"
    by (rule Cons.IH [OF lay1 i(4) rest])
  also have "activate_at cfg conns (set ks) ?ns1 = activate_at cfg conns (set (i # ks)) ns"
  proof (rule nth_equalityI)
    fix j assume "j < length (activate_at cfg conns (set ks) ?ns1)"
    then have j: "j < length ns" by simp
    show "activate_at cfg conns (set ks) ?ns1 ! j = activate_at cfg conns (set (i # ks)) ns ! j"
    proof (cases "j \<in> set ks")
      case True
      with i(3) have ne: "j \<noteq> i" by blast
      from True Cons.prems(3) have lj: "layer (ns ! j) = l" by simp
      have "weighted_input ?ns1 conns (?ns1 ! j) = weighted_input ns conns (ns ! j)"
      proof (rule weighted_input_cong [OF Cons.prems(1) ids lys j])
        show "bias (?ns1 ! j) = bias (ns ! j)" using ne by simp
        show "\<forall>p < length ns. Suc (layer (ns ! p)) = layer (ns ! j) \<longrightarrow>
                 activation (?ns1 ! p) = activation (ns ! p)"
          using lj i(1,2) by (auto simp: nth_list_update)
      qed
      with True ne j show ?thesis by (simp add: nth_activate_at)
    next
      case False
      with j i(1) show ?thesis by (simp add: nth_activate_at nth_list_update)
    qed
  qed simp
  finally show ?case .
qed

lemma forward_layer_layered:
  assumes "layered ns conns"
  shows "forward_layer cfg conns l ns
         = (None, activate_at cfg conns {j. j < length ns \<and> layer (ns ! j) = l} ns)"
  unfolding forward_layer_def
  using forward_indices_layered [where ns = ns and conns = conns and l = l and cfg = cfg
      and ks = "indices_where (\<lambda>n. layer n = l) ns", OF assms indices_where_props(1)]
  by (simp add: indices_where_props(2))

lemma js_max_None: "(js_max xs = None) = (xs = [])"
  by (cases xs) (auto split: option.splits)

lemma js_max_upper: "js_max xs = Some m \<Longrightarrow> x \<in> set xs \<Longrightarrow> x \<le> m"
  by (induction xs arbitrary: m) (auto split: option.splits simp: js_max_None)

lemma js_max_member: "js_max xs = Some m \<Longrightarrow> m \<in> set xs"
  by (induction xs arbitrary: m) (auto split: option.splits simp: max_def)

lemma activate_at_frame:
  assumes "\<And>n v. f (n\<lparr>activation := v\<rparr>) = f n"
  shows "map f (activate_at cfg conns S ns) = map f ns"
  by (rule nth_equalityI) (simp_all add: nth_activate_at assms)

lemma forward_layers_frame:
  assumes "\<And>n v. f (n\<lparr>activation := v\<rparr>) = f n"
    and "forEach (forward_layer cfg conns) ls ns = (e, ns')"
  shows "map f ns' = map f ns"
  using forEach_preserves [where f = "forward_layer cfg conns" and g = "map f", OF _ assms(2)]
    forward_layer_frame [OF assms(1)]
  by blast

lemma forward_layer_step:
  assumes lay: "layered ns conns" and inv: "activated_below cfg conns b ns"
  shows "activated_below cfg conns (Suc b)
           (activate_at cfg conns {j. j < length ns \<and> layer (ns ! j) = b} ns)"
proof -
  let ?S = "{j. j < length ns \<and> layer (ns ! j) = b}"
  let ?ns2 = "activate_at cfg conns ?S ns"
  have ids: "map id_n ?ns2 = map id_n ns" and lys: "map layer ?ns2 = map layer ns"
    and bs: "map bias ?ns2 = map bias ns"
    by (simp_all add: activate_at_frame)
  have "activation (?ns2 ! j) = activate cfg (weighted_input ?ns2 conns (?ns2 ! j))"
    if j: "j < length ns" and l: "1 \<le> layer (?ns2 ! j)" "layer (?ns2 ! j) < Suc b" for j
  proof -
    have lj: "layer (?ns2 ! j) = layer (ns ! j)" by (rule nth_of_map_eq [OF lys j])
    have w: "weighted_input ?ns2 conns (?ns2 ! j) = weighted_input ns conns (ns ! j)"
    proof (rule weighted_input_cong [OF lay ids lys j])
      show "bias (?ns2 ! j) = bias (ns ! j)" by (rule nth_of_map_eq [OF bs j])
      show "\<forall>p < length ns. Suc (layer (ns ! p)) = layer (ns ! j) \<longrightarrow>
               activation (?ns2 ! p) = activation (ns ! p)"
        using l lj by (auto simp: nth_activate_at)
    qed
    show ?thesis
    proof (cases "layer (ns ! j) = b")
      case True
      with j w show ?thesis by (simp add: nth_activate_at)
    next
      case False
      with l lj have "layer (ns ! j) < b" "1 \<le> layer (ns ! j)" by simp_all
      with inv j have "activation (ns ! j) = activate cfg (weighted_input ns conns (ns ! j))"
        unfolding activated_below_def by blast
      with False j w show ?thesis by (simp add: nth_activate_at)
    qed
  qed
  then show ?thesis
    unfolding activated_below_def by simp
qed

lemma activated_below_mono:
  "activated_below cfg conns b ns \<Longrightarrow> a \<le> b \<Longrightarrow> activated_below cfg conns a ns"
  unfolding activated_below_def by auto

lemma forward_layers_layered:
  assumes "layered ns conns" "activated_below cfg conns a ns"
  shows "\<exists>ns'. forEach (forward_layer cfg conns) [a..<b] ns = (None, ns')
           \<and> activated_below cfg conns (max a b) ns'
           \<and> (\<forall>j < length ns. layer (ns ! j) < a \<longrightarrow> activation (ns' ! j) = activation (ns ! j))"
proof (induction b)
  case 0
  with assms show ?case by simp
next
  case (Suc b)
  show ?case
  proof (cases "a \<le> b")
    case False
    with assms show ?thesis by (auto simp: max_def le_Suc_eq)
  next
    case True
    from Suc obtain ns1 where r: "forEach (forward_layer cfg conns) [a..<b] ns = (None, ns1)"
      and inv: "activated_below cfg conns (max a b) ns1"
      and low: "\<forall>j < length ns. layer (ns ! j) < a \<longrightarrow> activation (ns1 ! j) = activation (ns ! j)"
      by blast
    have ids: "map id_n ns1 = map id_n ns" and lys: "map layer ns1 = map layer ns"
      by (simp_all add: forward_layers_frame [OF _ r])
    then have len: "length ns1 = length ns" by (metis length_map)
    have lay1: "layered ns1 conns" by (rule layered_cong [OF assms(1) ids lys])
    let ?ns2 = "activate_at cfg conns {j. j < length ns1 \<and> layer (ns1 ! j) = b} ns1"
    from True inv have "activated_below cfg conns b ns1" by (simp add: max_def)
    from forward_layer_step [OF lay1 this]
    have inv2: "activated_below cfg conns (max a (Suc b)) ?ns2"
      using True by (simp add: max_def)
    have "activation (?ns2 ! j) = activation (ns ! j)" if "j < length ns" "layer (ns ! j) < a" for j
    proof -
      from that nth_of_map_eq [OF lys that(1)] True have "layer (ns1 ! j) \<noteq> b" by simp
      with that len low show ?thesis by (simp add: nth_activate_at)
    qed
    moreover have "forEach (forward_layer cfg conns) [a..<Suc b] ns = (None, ?ns2)"
      using True r by (simp add: forEach_append forward_layer_layered [OF lay1])
    ultimately show ?thesis using inv2 by blast
  qed
qed

lemma set_inputs_spec:
  "length (set_inputs inputs ns) = length ns
   \<and> (\<forall>k < length (indices_where (\<lambda>n. type_n n = Input) ns).
        set_inputs inputs ns ! (indices_where (\<lambda>n. type_n n = Input) ns ! k)
        = (ns ! (indices_where (\<lambda>n. type_n n = Input) ns ! k))
            \<lparr>activation := or_zero (at_index inputs k)\<rparr>)"
proof -
  have "\<forall>i \<in> set (indices_where (\<lambda>n. type_n n = Input) ns). i < length ns"
    by (simp add: indices_where_props(2))
  from fold_enumerate_update [where h = "\<lambda>k n. n\<lparr>activation := or_zero (at_index inputs k)\<rparr>"
      and ?k0.0 = 0, OF indices_where_props(1) this]
  show ?thesis by (simp add: set_inputs_def)
qed

lemma forward_layered:
  assumes "layered (nodes net) (connections net)"
  shows "\<exists>ns'. forward net inputs
             = (Inr (map activation (filter (\<lambda>n. type_n n = Output) ns')), net\<lparr>nodes := ns'\<rparr>)
           \<and> (\<forall>j < length ns'. 1 \<le> layer (ns' ! j) \<longrightarrow>
                activation (ns' ! j)
                = activate (config net) (weighted_input ns' (connections net) (ns' ! j)))
           \<and> (\<forall>j < length ns'. layer (ns' ! j) = 0 \<longrightarrow>
                activation (ns' ! j) = activation (set_inputs inputs (nodes net) ! j))"
proof -
  let ?ns1 = "set_inputs inputs (nodes net)"
  let ?cfg = "config net" and ?conns = "connections net"
  have ids: "map id_n ?ns1 = map id_n (nodes net)" and lys: "map layer ?ns1 = map layer (nodes net)"
    by (simp_all add: set_inputs_frame)
  have lay1: "layered ?ns1 ?conns" by (rule layered_cong [OF assms ids lys])
  have inv1: "activated_below ?cfg ?conns 1 ?ns1" by (auto simp: activated_below_def)
  show ?thesis
  proof (cases "js_max (map layer ?ns1)")
    case None
    then have "?ns1 = []" by (simp add: js_max_None)
    with None show ?thesis by (intro exI [of _ "[]"]) (simp add: forward_def Let_def)
  next
    case (Some m)
    from forward_layers_layered [OF lay1 inv1, of "Suc m"]
    obtain ns' where r: "forEach (forward_layer ?cfg ?conns) [1..<Suc m] ?ns1 = (None, ns')"
      and inv: "activated_below ?cfg ?conns (max 1 (Suc m)) ns'"
      and low: "\<forall>j < length ?ns1. layer (?ns1 ! j) < 1 \<longrightarrow> activation (ns' ! j) = activation (?ns1 ! j)"
      by blast
    have lys': "map layer ns' = map layer ?ns1"
      by (simp add: forward_layers_frame [OF _ r])
    then have len: "length ns' = length ?ns1" by (metis length_map)
    have top: "layer (ns' ! j) \<le> m" if "j < length ns'" for j
    proof -
      from that len have "layer (ns' ! j) = layer (?ns1 ! j)"
        using nth_of_map_eq [OF lys'] by simp
      moreover from that len have "layer (?ns1 ! j) \<in> set (map layer ?ns1)" by simp
      ultimately show ?thesis using js_max_upper [OF Some] by simp
    qed
    have a: "activation (ns' ! j) = activate ?cfg (weighted_input ns' ?conns (ns' ! j))"
      if "j < length ns'" "1 \<le> layer (ns' ! j)" for j
      using inv that top [OF that(1)] unfolding activated_below_def by (simp add: max_def)
    have b: "activation (ns' ! j) = activation (?ns1 ! j)"
      if "j < length ns'" "layer (ns' ! j) = 0" for j
    proof -
      from that len have "layer (?ns1 ! j) = 0"
        using nth_of_map_eq [OF lys', of j] by simp
      with low that len show ?thesis by simp
    qed
    from r Some have "forward net inputs
        = (Inr (map activation (filter (\<lambda>n. type_n n = Output) ns')), net\<lparr>nodes := ns'\<rparr>)"
      by (simp add: forward_def Let_def)
    with a b show ?thesis by blast
  qed
qed

section \<open>What well-formedness gives\<close>

lemma layered_built: "layered (nodes (initializeNetwork cfg rnd)) (connections (initializeNetwork cfg rnd))"
proof -
  let ?K = "length (layerSizes cfg)"
  let ?ns = "create_nodes rnd ?K 0 0 (layerSizes cfg)"
  let ?cs = "create_connections rnd (sum_list (layerSizes cfg)) ?ns ?K"
  have "\<exists>p < length ?ns. \<exists>q < length ?ns.
         id_n (?ns ! p) = fromNodeId c \<and> id_n (?ns ! q) = toNodeId c
         \<and> layer (?ns ! q) = Suc (layer (?ns ! p))" if "c \<in> set ?cs" for c
  proof -
    from that have "\<exists>c' \<in> set ?cs. fromNodeId c' = fromNodeId c \<and> toNodeId c' = toNodeId c"
      by blast
    then obtain a b where ab: "(a, b) \<in> set (connection_pairs ?ns ?K)"
      "id_n a = fromNodeId c" "id_n b = toNodeId c"
      unfolding connection_between_iff by blast
    then have "a \<in> set ?ns" "b \<in> set ?ns" "layer b = Suc (layer a)"
      by (simp_all add: set_connection_pairs)
    then obtain p q where "p < length ?ns" "?ns ! p = a" "q < length ?ns" "?ns ! q = b"
      unfolding in_set_conv_nth by blast
    with ab(2,3) \<open>layer b = Suc (layer a)\<close> show ?thesis by blast
  qed
  then show ?thesis
    unfolding layered_def nodes_initializeNetwork connections_initializeNetwork
    using distinct_ids_create_nodes by blast
qed

lemma layered_connections_cong:
  assumes "layered ns conns"
    and "map fromNodeId conns' = map fromNodeId conns"
    and "map toNodeId conns' = map toNodeId conns"
  shows "layered ns conns'"
proof -
  have "\<exists>c \<in> set conns. fromNodeId c = fromNodeId c' \<and> toNodeId c = toNodeId c'"
    if "c' \<in> set conns'" for c'
  proof -
    from that obtain k where k: "k < length conns'" "conns' ! k = c'"
      unfolding in_set_conv_nth by blast
    from assms(2) have len: "length conns' = length conns" by (rule map_eq_imp_length_eq)
    with k have "fromNodeId (conns ! k) = fromNodeId c'" "toNodeId (conns ! k) = toNodeId c'"
      using nth_of_map_eq [OF assms(2), of k] nth_of_map_eq [OF assms(3), of k] by simp_all
    with k(1) len show ?thesis by (metis nth_mem)
  qed
  then have "\<exists>p < length ns. \<exists>q < length ns.
         id_n (ns ! p) = fromNodeId c' \<and> id_n (ns ! q) = toNodeId c'
         \<and> layer (ns ! q) = Suc (layer (ns ! p))" if "c' \<in> set conns'" for c'
    using that assms(1) unfolding layered_def by fastforce
  with assms(1) show ?thesis
    unfolding layered_def by blast
qed

lemma static_node_maps:
  assumes "map static_node ns' = map static_node ns"
  shows "map id_n ns' = map id_n ns" "map layer ns' = map layer ns" "map type_n ns' = map type_n ns"
  using arg_cong [OF assms, of "map fst"]
    arg_cong [OF assms, of "map (\<lambda>s. fst (snd (snd (snd s))))"]
    arg_cong [OF assms, of "map (\<lambda>s. snd (snd (snd (snd s))))"]
  by (simp_all add: static_node_def o_def)

lemma static_connection_maps:
  assumes "map static_connection cs' = map static_connection cs"
  shows "map fromNodeId cs' = map fromNodeId cs" "map toNodeId cs' = map toNodeId cs"
  using arg_cong [OF assms, of "map (\<lambda>s. fst (snd s))"]
    arg_cong [OF assms, of "map (\<lambda>s. snd (snd s))"]
  by (simp_all add: static_connection_def o_def)

lemma wf_network_layered:
  assumes "wf_network net"
  shows "layered (nodes net) (connections net)"
proof -
  let ?B = "initializeNetwork (config net) (\<lambda>k. 0)"
  from assms have n: "map static_node (nodes net) = map static_node (nodes ?B)"
    and c: "map static_connection (connections net) = map static_connection (connections ?B)"
    by (simp_all add: wf_network_def)
  have "layered (nodes net) (connections ?B)"
    by (rule layered_cong [OF layered_built static_node_maps(1,2) [OF n]])
  then show ?thesis
    by (rule layered_connections_cong [OF _ static_connection_maps [OF c]])
qed

lemma wf_network_types:
  assumes "wf_network net"
  shows "map type_n (nodes net)
         = replicate (inputSize (config net)) Input
           @ replicate (sum_list (hiddenLayers (config net))) Hidden
           @ replicate (outputSize (config net)) Output"
proof -
  from assms have "map static_node (nodes net)
      = map static_node (nodes (initializeNetwork (config net) (\<lambda>k. 0)))"
    by (simp add: wf_network_def)
  from static_node_maps(3) [OF this] built_topology [of "config net" "\<lambda>k. 0"]
  show ?thesis by simp
qed

lemma wf_network_layers:
  assumes "wf_network net"
  shows "map layer (nodes net)
         = replicate (inputSize (config net)) 0
           @ concat (map (\<lambda>(l, h). replicate h l) (enumerate 1 (hiddenLayers (config net))))
           @ replicate (outputSize (config net)) (Suc (length (hiddenLayers (config net))))"
proof -
  from assms have "map static_node (nodes net)
      = map static_node (nodes (initializeNetwork (config net) (\<lambda>k. 0)))"
    by (simp add: wf_network_def)
  from static_node_maps(2) [OF this] built_topology [of "config net" "\<lambda>k. 0"]
  show ?thesis by simp
qed

lemma wf_network_type_of_layer:
  assumes "wf_network net" "n \<in> set (nodes net)"
  shows "type_n n = layerType (Suc (Suc (length (hiddenLayers (config net))))) (layer n)"
    and "layer n \<le> Suc (length (hiddenLayers (config net)))"
proof -
  let ?B = "initializeNetwork (config net) (\<lambda>k. 0)"
  from assms(1) have s: "map static_node (nodes net) = map static_node (nodes ?B)"
    by (simp add: wf_network_def)
  from assms(2) have "static_node n \<in> set (map static_node (nodes ?B))"
    unfolding s [symmetric] by simp
  then obtain m where m: "m \<in> set (nodes ?B)" "static_node m = static_node n" by auto
  then have e: "layer m = layer n" "type_n m = type_n n" by (simp_all add: static_node_def)
  from m(1) have m': "m \<in> set (create_nodes (\<lambda>k. 0) (length (layerSizes (config net))) 0 0
      (layerSizes (config net)))"
    by (simp add: nodes_initializeNetwork)
  from type_of_layer_create_nodes [OF m'] e
  show "type_n n = layerType (Suc (Suc (length (hiddenLayers (config net))))) (layer n)"
    by (simp add: layerSizes_def)
  from layer_bounds_create_nodes [OF m'] e
  show "layer n \<le> Suc (length (hiddenLayers (config net)))"
    by (simp add: layerSizes_def)
qed

lemma wf_network_max_layer:
  assumes "wf_network net"
  shows "js_max (map layer (nodes net)) = Some (Suc (length (hiddenLayers (config net))))"
proof -
  let ?L = "Suc (length (hiddenLayers (config net)))"
  from assms have "0 < outputSize (config net)" by (simp add: wf_network_def)
  then have top: "?L \<in> set (map layer (nodes net))"
    unfolding wf_network_layers [OF assms] by simp
  then have "js_max (map layer (nodes net)) \<noteq> None"
    by (auto simp: js_max_None)
  then obtain m where m: "js_max (map layer (nodes net)) = Some m" by blast
  from js_max_upper [OF m top] have "?L \<le> m" .
  moreover from js_max_member [OF m] wf_network_type_of_layer(2) [OF assms] have "m \<le> ?L"
    by auto
  ultimately show ?thesis using m by simp
qed

lemma count_filter_types:
  "length (filter (\<lambda>n. type_n n = t) ns) = length (filter (\<lambda>x. x = t) (map type_n ns))"
  by (simp add: filter_map o_def)

lemma wf_network_counts:
  assumes "wf_network net"
  shows "length (filter (\<lambda>n. type_n n = Input) (nodes net)) = inputSize (config net)"
    and "length (filter (\<lambda>n. type_n n = Output) (nodes net)) = outputSize (config net)"
  unfolding count_filter_types wf_network_types [OF assms] by simp_all

lemma wf_network_frame:
  assumes "wf_network net" "config net' = config net"
    "map static_node (nodes net') = map static_node (nodes net)"
    "map static_connection (connections net') = map static_connection (connections net)"
  shows "wf_network net'"
  using assms by (simp add: wf_network_def)

lemma forward_wf:
  assumes "wf_network net"
  obtains ns' where
    "forward net inputs
       = (Inr (map activation (filter (\<lambda>n. type_n n = Output) ns')), net\<lparr>nodes := ns'\<rparr>)"
    "\<And>j. j < length ns' \<Longrightarrow> 1 \<le> layer (ns' ! j) \<Longrightarrow>
       activation (ns' ! j) = activate (config net) (weighted_input ns' (connections net) (ns' ! j))"
    "\<And>j. j < length ns' \<Longrightarrow> layer (ns' ! j) = 0 \<Longrightarrow>
       activation (ns' ! j) = activation (set_inputs inputs (nodes net) ! j)"
    "wf_network (net\<lparr>nodes := ns'\<rparr>)"
proof -
  from forward_layered [OF wf_network_layered [OF assms], of inputs]
  obtain ns' where r: "forward net inputs
       = (Inr (map activation (filter (\<lambda>n. type_n n = Output) ns')), net\<lparr>nodes := ns'\<rparr>)"
    and a: "\<forall>j < length ns'. 1 \<le> layer (ns' ! j) \<longrightarrow>
       activation (ns' ! j) = activate (config net) (weighted_input ns' (connections net) (ns' ! j))"
    and b: "\<forall>j < length ns'. layer (ns' ! j) = 0 \<longrightarrow>
       activation (ns' ! j) = activation (set_inputs inputs (nodes net) ! j)"
    by blast
  have "map static_node (nodes (snd (forward net inputs))) = map static_node (nodes net)"
    by (rule forward_frame) (simp add: static_node_def)
  with r have "map static_node ns' = map static_node (nodes net)" by simp
  with assms have "wf_network (net\<lparr>nodes := ns'\<rparr>)"
    by (simp add: wf_network_def)
  with r a b that show thesis by blast
qed

lemma output_is_last_layer:
  assumes "wf_network net"
  shows "filter (\<lambda>n. type_n n = Output) (nodes net)
         = filter (\<lambda>n. layer n = Suc (length (hiddenLayers (config net)))) (nodes net)"
  by (rule filter_cong [OF refl])
     (auto simp: wf_network_type_of_layer(1) [OF assms] layerType_def)

lemma input_is_first_layer:
  assumes "wf_network net" "n \<in> set (nodes net)"
  shows "(type_n n = Input) = (layer n = 0)"
  by (simp add: wf_network_type_of_layer(1) [OF assms] layerType_def)

lemma forward_inputs:
  assumes "wf_network net"
  shows "map activation (filter (\<lambda>n. type_n n = Input) (nodes (snd (forward net inputs))))
         = map (\<lambda>k. or_zero (at_index inputs k)) [0..<inputSize (config net)]"
proof -
  from forward_wf [OF assms, of inputs] obtain ns' where
    r: "forward net inputs
       = (Inr (map activation (filter (\<lambda>n. type_n n = Output) ns')), net\<lparr>nodes := ns'\<rparr>)"
    and a: "\<And>j. j < length ns' \<Longrightarrow> 1 \<le> layer (ns' ! j) \<Longrightarrow>
       activation (ns' ! j) = activate (config net) (weighted_input ns' (connections net) (ns' ! j))"
    and b: "\<And>j. j < length ns' \<Longrightarrow> layer (ns' ! j) = 0 \<Longrightarrow>
       activation (ns' ! j) = activation (set_inputs inputs (nodes net) ! j)"
    and wf': "wf_network (net\<lparr>nodes := ns'\<rparr>)"
    by blast
  let ?ks = "indices_where (\<lambda>n. type_n n = Input) (nodes net)"
  have "map type_n (nodes (snd (forward net inputs))) = map type_n (nodes net)"
    by (simp add: forward_frame)
  with r have ty: "map type_n ns' = map type_n (nodes net)" by simp
  then have len: "length ns' = length (nodes net)" by (rule map_eq_imp_length_eq)
  have ks: "indices_where (\<lambda>n. type_n n = Input) ns' = ?ks"
    by (rule indices_where_cong [OF ty])
  have n: "length ?ks = inputSize (config net)"
    using wf_network_counts(1) [OF assms]
    by (simp only: filter_conv_indices [of _ "nodes net"] length_map)
  have "activation (ns' ! (?ks ! k)) = or_zero (at_index inputs k)" if "k < length ?ks" for k
  proof -
    from that have m: "?ks ! k \<in> set ?ks" by simp
    then have j: "?ks ! k < length ns'" and t: "type_n (ns' ! (?ks ! k)) = Input"
      unfolding ks [symmetric] by (simp_all add: indices_where_props(2))
    from j have "ns' ! (?ks ! k) \<in> set (nodes (net\<lparr>nodes := ns'\<rparr>))" by simp
    from input_is_first_layer [OF wf' this] t have "layer (ns' ! (?ks ! k)) = 0" by simp
    from set_inputs_spec [of inputs "nodes net"] that
    have "set_inputs inputs (nodes net) ! (?ks ! k)
        = (nodes net ! (?ks ! k))\<lparr>activation := or_zero (at_index inputs k)\<rparr>"
      by blast
    with b [OF j \<open>layer (ns' ! (?ks ! k)) = 0\<close>] show ?thesis by simp
  qed
  then have m: "map (\<lambda>i. activation (ns' ! i)) ?ks
      = map (\<lambda>k. or_zero (at_index inputs k)) [0..<length ?ks]"
    by (intro nth_equalityI) simp_all
  from r have "nodes (snd (forward net inputs)) = ns'" by simp
  moreover have "filter (\<lambda>n. type_n n = Input) ns' = map (\<lambda>i. ns' ! i) ?ks"
    by (simp only: filter_conv_indices [of _ ns'] ks)
  ultimately have "map activation (filter (\<lambda>n. type_n n = Input) (nodes (snd (forward net inputs))))
      = map (\<lambda>i. activation (ns' ! i)) ?ks"
    by (simp only: map_map o_def)
  with m n show ?thesis by (simp only:)
qed

lemma or_zero_reals:
  "map (\<lambda>k. or_zero (at_index (map Num rs) k)) [0..<n]
   = map Num (take n rs) @ replicate (n - length rs) (Num 0)"
  by (rule nth_equalityI) (auto simp: at_index_def nth_append)

section \<open>The backward loops over a layered state\<close>

lemma js_mul_commute: "js_mul a b = js_mul b a"
  by (cases a; cases b) simp_all

lemma error_of_nth:
  "layered ns conns \<Longrightarrow> q < length ns \<Longrightarrow> error_of ns (id_n (ns ! q)) = toNumber (error (ns ! q))"
  by (simp add: error_of_def layered_find_nth)

lemma add_outgoing_loop:
  "\<forall>c \<in> set cs. find_node ns (toNodeId c) \<noteq> None \<Longrightarrow>
   forEach (add_outgoing ns) cs acc
   = (None, foldl (\<lambda>acc c. js_add acc (js_mul (error_of ns (toNodeId c)) (weight c))) acc cs)"
  by (induction cs arbitrary: acc) (auto simp: add_outgoing_def error_of_def)

lemma backward_node_layered:
  assumes "layered ns conns"
  shows "backward_node cfg conns i ns
         = (None, if type_n (ns ! i) = Input then ns
                  else ns[i := (ns ! i)\<lparr>error := Some (backprop_error cfg conns ns (ns ! i))\<rparr>])"
proof -
  have "\<forall>c \<in> set (filter (\<lambda>c. fromNodeId c = id_n (ns ! i)) conns). find_node ns (toNodeId c) \<noteq> None"
    using layered_endpoints_found(2) [OF assms] by simp
  from add_outgoing_loop [OF this] show ?thesis
    by (simp add: backward_node_def Let_def weighted_error_def backprop_error_def)
qed

lemma weighted_error_cong:
  assumes lay: "layered ns conns"
    and ids: "map id_n ns' = map id_n ns" and lys: "map layer ns' = map layer ns"
    and j: "j < length ns"
    and above: "\<forall>q < length ns. layer (ns ! q) = Suc (layer (ns ! j)) \<longrightarrow>
                 error (ns' ! q) = error (ns ! q)"
  shows "weighted_error ns' conns (ns' ! j) = weighted_error ns conns (ns ! j)"
proof -
  from ids have len: "length ns' = length ns" by (rule map_eq_imp_length_eq)
  have lay': "layered ns' conns" by (rule layered_cong [OF lay ids lys])
  have idj: "id_n (ns' ! j) = id_n (ns ! j)" by (rule nth_of_map_eq [OF ids j])
  have dst: "error_of ns' (toNodeId c) = error_of ns (toNodeId c)"
    if c: "c \<in> set conns" and f: "fromNodeId c = id_n (ns ! j)" for c
  proof -
    from lay c obtain p q where pq: "p < length ns" "q < length ns"
      "id_n (ns ! p) = fromNodeId c" "id_n (ns ! q) = toNodeId c"
      "layer (ns ! q) = Suc (layer (ns ! p))"
      unfolding layered_def by blast
    from layered_nth_eq [OF lay pq(1) j] pq(3) f have "p = j" by simp
    with pq(5) above pq(2) have e: "error (ns' ! q) = error (ns ! q)" by simp
    have "error_of ns' (toNodeId c) = error_of ns' (id_n (ns' ! q))"
      using nth_of_map_eq [OF ids pq(2)] pq(4) by simp
    also have "\<dots> = toNumber (error (ns' ! q))"
      using error_of_nth [OF lay', of q] pq(2) len by simp
    also have "\<dots> = error_of ns (id_n (ns ! q))"
      using error_of_nth [OF lay pq(2)] e by simp
    finally show ?thesis using pq(4) by simp
  qed
  show ?thesis
    unfolding weighted_error_def idj
    by (rule foldl_cong) (auto simp: dst)
qed

lemma backprop_error_cong:
  assumes "layered ns conns" "map id_n ns' = map id_n ns" "map layer ns' = map layer ns"
    "j < length ns" "activation (ns' ! j) = activation (ns ! j)"
    "\<forall>q < length ns. layer (ns ! q) = Suc (layer (ns ! j)) \<longrightarrow> error (ns' ! q) = error (ns ! q)"
  shows "backprop_error cfg conns ns' (ns' ! j) = backprop_error cfg conns ns (ns ! j)"
  unfolding backprop_error_def
  using weighted_error_cong [OF assms(1-4) assms(6)] assms(5) by simp

lemma length_backprop_at [simp]: "length (backprop_at cfg conns S ns) = length ns"
  by (simp add: backprop_at_def)

lemma nth_backprop_at:
  "j < length ns \<Longrightarrow> backprop_at cfg conns S ns ! j
     = (if j \<in> S \<and> type_n (ns ! j) \<noteq> Input
        then (ns ! j)\<lparr>error := Some (backprop_error cfg conns ns (ns ! j))\<rparr>
        else ns ! j)"
  by (simp add: backprop_at_def)

lemma backprop_at_frame:
  assumes "\<And>n v. f (n\<lparr>error := v\<rparr>) = f n"
  shows "map f (backprop_at cfg conns S ns) = map f ns"
  by (rule nth_equalityI) (simp_all add: nth_backprop_at assms)

lemma backward_indices_layered:
  assumes "layered ns conns" "distinct ks" "\<forall>i \<in> set ks. i < length ns \<and> layer (ns ! i) = l"
  shows "forEach (backward_node cfg conns) ks ns = (None, backprop_at cfg conns (set ks) ns)"
  using assms
proof (induction ks arbitrary: ns)
  case Nil
  have "backprop_at cfg conns {} ns = ns"
    by (rule nth_equalityI) (simp_all add: nth_backprop_at)
  then show ?case by simp
next
  case (Cons i ks)
  let ?ns1 = "if type_n (ns ! i) = Input then ns
              else ns[i := (ns ! i)\<lparr>error := Some (backprop_error cfg conns ns (ns ! i))\<rparr>]"
  from Cons.prems have i: "i < length ns" "layer (ns ! i) = l" "i \<notin> set ks" "distinct ks"
    by simp_all
  have ids: "map id_n ?ns1 = map id_n ns" and lys: "map layer ?ns1 = map layer ns"
    and tys: "map type_n ?ns1 = map type_n ns" and acs: "map activation ?ns1 = map activation ns"
    by (simp_all add: map_update_same)
  then have len: "length ?ns1 = length ns" by (metis length_map)
  have lay1: "layered ?ns1 conns" by (rule layered_cong [OF Cons.prems(1) ids lys])
  have other: "?ns1 ! k = ns ! k" if "k \<noteq> i" for k
    using that by simp
  have rest: "\<forall>k \<in> set ks. k < length ?ns1 \<and> layer (?ns1 ! k) = l"
    using Cons.prems(3) i(3) len other by (metis list.set_intros(2))
  have "forEach (backward_node cfg conns) (i # ks) ns = forEach (backward_node cfg conns) ks ?ns1"
    by (simp add: backward_node_layered [OF Cons.prems(1)])
  also have "\<dots> = (None, backprop_at cfg conns (set ks) ?ns1)"
    by (rule Cons.IH [OF lay1 i(4) rest])
  also have "backprop_at cfg conns (set ks) ?ns1 = backprop_at cfg conns (set (i # ks)) ns"
  proof (rule nth_equalityI)
    fix j assume "j < length (backprop_at cfg conns (set ks) ?ns1)"
    with len have j: "j < length ns" by simp
    show "backprop_at cfg conns (set ks) ?ns1 ! j = backprop_at cfg conns (set (i # ks)) ns ! j"
    proof (cases "j \<in> set ks")
      case True
      with i(3) have ne: "j \<noteq> i" by blast
      from True Cons.prems(3) have lj: "layer (ns ! j) = l" by simp
      have "backprop_error cfg conns ?ns1 (?ns1 ! j) = backprop_error cfg conns ns (ns ! j)"
      proof (rule backprop_error_cong [OF Cons.prems(1) ids lys j])
        show "activation (?ns1 ! j) = activation (ns ! j)" using other [OF ne] by simp
        have "q \<noteq> i" if "layer (ns ! q) = Suc (layer (ns ! j))" for q
          using that lj i(2) by auto
        then show "\<forall>q < length ns. layer (ns ! q) = Suc (layer (ns ! j)) \<longrightarrow>
                 error (?ns1 ! q) = error (ns ! q)"
          by (metis other)
      qed
      with True ne j len other [OF ne] show ?thesis
        by (simp add: nth_backprop_at del: if_split cong: if_cong)
    next
      case False
      show ?thesis
      proof (cases "j = i")
        case True
        with False j len i(1) show ?thesis by (simp add: nth_backprop_at)
      next
        case ne: False
        with False j len other [OF ne] show ?thesis by (simp add: nth_backprop_at)
      qed
    qed
  qed (simp add: len)
  finally show ?case .
qed

lemma backward_layer_layered:
  assumes "layered ns conns"
  shows "backward_layer cfg conns l ns
         = (None, backprop_at cfg conns {j. j < length ns \<and> layer (ns ! j) = l} ns)"
  unfolding backward_layer_def
  using backward_indices_layered [where ns = ns and conns = conns and l = l and cfg = cfg
      and ks = "indices_where (\<lambda>n. layer n = l) ns", OF assms indices_where_props(1)]
  by (simp add: indices_where_props(2))

lemma backward_layer_step:
  assumes lay: "layered ns conns" and inv: "errors_between cfg conns (Suc a) m ns"
  shows "errors_between cfg conns a m
           (backprop_at cfg conns {j. j < length ns \<and> layer (ns ! j) = a} ns)"
proof -
  let ?S = "{j. j < length ns \<and> layer (ns ! j) = a}"
  let ?ns2 = "backprop_at cfg conns ?S ns"
  have ids: "map id_n ?ns2 = map id_n ns" and lys: "map layer ?ns2 = map layer ns"
    and acs: "map activation ?ns2 = map activation ns" and tys: "map type_n ?ns2 = map type_n ns"
    by (simp_all add: backprop_at_frame)
  have "error (?ns2 ! j) = Some (backprop_error cfg conns ?ns2 (?ns2 ! j))"
    if j: "j < length ns" and l: "a \<le> layer (?ns2 ! j)" "layer (?ns2 ! j) < m"
      and t: "type_n (?ns2 ! j) \<noteq> Input" for j
  proof -
    have lj: "layer (?ns2 ! j) = layer (ns ! j)" by (rule nth_of_map_eq [OF lys j])
    have tj: "type_n (?ns2 ! j) = type_n (ns ! j)" by (rule nth_of_map_eq [OF tys j])
    have w: "backprop_error cfg conns ?ns2 (?ns2 ! j) = backprop_error cfg conns ns (ns ! j)"
    proof (rule backprop_error_cong [OF lay ids lys j])
      show "activation (?ns2 ! j) = activation (ns ! j)" by (rule nth_of_map_eq [OF acs j])
      show "\<forall>q < length ns. layer (ns ! q) = Suc (layer (ns ! j)) \<longrightarrow>
               error (?ns2 ! q) = error (ns ! q)"
        using l lj by (auto simp: nth_backprop_at)
    qed
    show ?thesis
    proof (cases "layer (ns ! j) = a")
      case True
      with j w t tj show ?thesis by (simp add: nth_backprop_at)
    next
      case False
      with l lj have "Suc a \<le> layer (ns ! j)" "layer (ns ! j) < m" by simp_all
      with inv j t tj have "error (ns ! j) = Some (backprop_error cfg conns ns (ns ! j))"
        unfolding errors_between_def by simp
      with False j w show ?thesis by (simp add: nth_backprop_at)
    qed
  qed
  then show ?thesis
    unfolding errors_between_def by simp
qed

lemma backward_layers_layered:
  assumes "layered ns conns" "errors_between cfg conns b m ns" "d = b - a" "a \<le> b"
  shows "\<exists>ns'. forEach (backward_layer cfg conns) (rev [a..<b]) ns = (None, ns')
           \<and> errors_between cfg conns a m ns'
           \<and> (\<forall>j < length ns. b \<le> layer (ns ! j) \<or> type_n (ns ! j) = Input \<longrightarrow>
                 error (ns' ! j) = error (ns ! j))"
  using assms(3,4)
proof (induction d arbitrary: a)
  case 0
  with assms(1,2) show ?case by simp
next
  case (Suc d)
  then have lt: "a < b" and d: "d = b - Suc a" and le: "Suc a \<le> b" by simp_all
  from Suc.IH [OF d le] obtain ns1 where
    r: "forEach (backward_layer cfg conns) (rev [Suc a..<b]) ns = (None, ns1)"
    and inv: "errors_between cfg conns (Suc a) m ns1"
    and high: "\<forall>j < length ns. b \<le> layer (ns ! j) \<or> type_n (ns ! j) = Input \<longrightarrow>
                 error (ns1 ! j) = error (ns ! j)"
    by blast
  have ids: "map id_n ns1 = map id_n ns" and lys: "map layer ns1 = map layer ns"
    and tys: "map type_n ns1 = map type_n ns"
    by (simp_all add: backward_layers_frame [OF _ r])
  then have len: "length ns1 = length ns" by (metis length_map)
  have lay1: "layered ns1 conns" by (rule layered_cong [OF assms(1) ids lys])
  let ?ns2 = "backprop_at cfg conns {j. j < length ns1 \<and> layer (ns1 ! j) = a} ns1"
  have inv2: "errors_between cfg conns a m ?ns2"
    by (rule backward_layer_step [OF lay1 inv])
  have "error (?ns2 ! j) = error (ns ! j)"
    if "j < length ns" "b \<le> layer (ns ! j) \<or> type_n (ns ! j) = Input" for j
  proof -
    from that nth_of_map_eq [OF lys that(1)] nth_of_map_eq [OF tys that(1)] lt
    have "layer (ns1 ! j) \<noteq> a \<or> type_n (ns1 ! j) = Input" by auto
    with that len high show ?thesis by (auto simp: nth_backprop_at)
  qed
  moreover have "forEach (backward_layer cfg conns) (rev [a..<b]) ns = (None, ?ns2)"
    using lt r by (simp add: upt_conv_Cons forEach_append backward_layer_layered [OF lay1])
  ultimately show ?case using inv2 by blast
qed

lemma set_output_errors_spec:
  "length (set_output_errors cfg ts ns) = length ns
   \<and> (\<forall>k < length (indices_where (\<lambda>n. type_n n = Output) ns).
        set_output_errors cfg ts ns ! (indices_where (\<lambda>n. type_n n = Output) ns ! k)
        = (ns ! (indices_where (\<lambda>n. type_n n = Output) ns ! k))
            \<lparr>error := Some (js_mul
               (js_sub (toNumber (at_index ts k))
                  (activation (ns ! (indices_where (\<lambda>n. type_n n = Output) ns ! k))))
               (activateDerivative cfg
                  (activation (ns ! (indices_where (\<lambda>n. type_n n = Output) ns ! k)))))\<rparr>)
   \<and> (\<forall>j. type_n (ns ! j) \<noteq> Output \<longrightarrow> set_output_errors cfg ts ns ! j = ns ! j)"
proof -
  have b: "\<forall>i \<in> set (indices_where (\<lambda>n. type_n n = Output) ns). i < length ns"
    by (simp add: indices_where_props(2))
  have "j \<notin> set (indices_where (\<lambda>n. type_n n = Output) ns)" if "type_n (ns ! j) \<noteq> Output" for j
    using that by (simp add: indices_where_props(2))
  with fold_enumerate_update [where h = "\<lambda>k n. n\<lparr>error := Some (js_mul
        (js_sub (toNumber (at_index ts k)) (activation n))
        (activateDerivative cfg (activation n)))\<rparr>"
      and ?k0.0 = 0, OF indices_where_props(1) b]
  show ?thesis by (simp add: set_output_errors_def)
qed

lemma update_connection_found:
  assumes "find_node ns (fromNodeId (cs ! k)) \<noteq> None" "find_node ns (toNodeId (cs ! k)) \<noteq> None"
  shows "update_connection cfg ns k cs = (None, cs[k := updated_connection cfg ns (cs ! k)])"
  using assms
  by (auto simp: update_connection_def updated_connection_def Let_def error_of_def
      activation_of_def)

lemma update_connections_loop:
  assumes "\<forall>c \<in> set cs. find_node ns (fromNodeId c) \<noteq> None \<and> find_node ns (toNodeId c) \<noteq> None"
    and "distinct ks" "\<forall>k \<in> set ks. k < length cs"
  shows "forEach (update_connection cfg ns) ks cs
         = (None, map (\<lambda>j. if j \<in> set ks then updated_connection cfg ns (cs ! j) else cs ! j)
                    [0..<length cs])"
  using assms
proof (induction ks arbitrary: cs)
  case Nil
  have "map (\<lambda>j. cs ! j) [0..<length cs] = cs" by (rule map_nth)
  then show ?case by simp
next
  case (Cons k ks)
  let ?cs1 = "cs[k := updated_connection cfg ns (cs ! k)]"
  from Cons.prems have k: "k < length cs" "k \<notin> set ks" "distinct ks" by simp_all
  have e: "fromNodeId (updated_connection cfg ns c) = fromNodeId c"
    "toNodeId (updated_connection cfg ns c) = toNodeId c" for c
    by (simp_all add: updated_connection_def)
  have f1: "\<forall>c \<in> set ?cs1. find_node ns (fromNodeId c) \<noteq> None \<and> find_node ns (toNodeId c) \<noteq> None"
  proof
    fix c assume "c \<in> set ?cs1"
    then have "c = updated_connection cfg ns (cs ! k) \<or> c \<in> set cs"
      using set_update_subset_insert [of cs k] by auto
    with Cons.prems(1) k(1) e show
      "find_node ns (fromNodeId c) \<noteq> None \<and> find_node ns (toNodeId c) \<noteq> None"
      by (metis nth_mem)
  qed
  have "forEach (update_connection cfg ns) (k # ks) cs = forEach (update_connection cfg ns) ks ?cs1"
    using Cons.prems(1) k(1) by (simp add: update_connection_found)
  also have "\<dots> = (None, map (\<lambda>j. if j \<in> set ks then updated_connection cfg ns (?cs1 ! j)
      else ?cs1 ! j) [0..<length ?cs1])"
    using Cons.prems(3) by (intro Cons.IH [OF f1 k(3)]) simp
  also have "map (\<lambda>j. if j \<in> set ks then updated_connection cfg ns (?cs1 ! j) else ?cs1 ! j)
        [0..<length ?cs1]
      = map (\<lambda>j. if j \<in> set (k # ks) then updated_connection cfg ns (cs ! j) else cs ! j)
        [0..<length cs]"
    using k by (auto simp: nth_list_update)
  finally show ?case .
qed

lemma update_connections_layered:
  assumes "layered ns conns"
  shows "forEach (update_connection cfg ns) [0..<length conns] conns
         = (None, map (updated_connection cfg ns) conns)"
proof -
  have "\<forall>c \<in> set conns. find_node ns (fromNodeId c) \<noteq> None \<and> find_node ns (toNodeId c) \<noteq> None"
    using layered_endpoints_found [OF assms] by blast
  from update_connections_loop [OF this, of "[0..<length conns]" cfg]
  have "forEach (update_connection cfg ns) [0..<length conns] conns
      = (None, map (\<lambda>j. updated_connection cfg ns (conns ! j)) [0..<length conns])"
    by (simp cong: map_cong)
  moreover have "map (\<lambda>j. updated_connection cfg ns (conns ! j)) [0..<length conns]
      = map (updated_connection cfg ns) conns"
    by (rule nth_equalityI) simp_all
  ultimately show ?thesis by simp
qed

lemma hidden_is_inner_layer:
  assumes "wf_network net" "n \<in> set (nodes net)"
  shows "(type_n n = Hidden) = (0 < layer n \<and> layer n < Suc (length (hiddenLayers (config net))))"
    and "(type_n n = Output) = (layer n = Suc (length (hiddenLayers (config net))))"
  using wf_network_type_of_layer [OF assms]
  by (auto simp: layerType_def)

lemma backward_wf:
  assumes "wf_network net"
  obtains ns' where
    "backward net ts
       = (None, net\<lparr>nodes := ns',
            connections := map (updated_connection (config net) ns') (connections net)\<rparr>)"
    "\<And>j. j < length ns' \<Longrightarrow> type_n (ns' ! j) = Hidden \<Longrightarrow>
       error (ns' ! j) = Some (backprop_error (config net) (connections net) ns' (ns' ! j))"
    "\<And>j. j < length ns' \<Longrightarrow> type_n (ns' ! j) \<noteq> Hidden \<Longrightarrow>
       error (ns' ! j) = error (set_output_errors (config net) ts (nodes net) ! j)"
    "wf_network (net\<lparr>nodes := ns'\<rparr>)"
proof -
  let ?cfg = "config net" and ?conns = "connections net"
  let ?ns1 = "set_output_errors ?cfg ts (nodes net)"
  let ?m = "Suc (length (hiddenLayers ?cfg))"
  have ids: "map id_n ?ns1 = map id_n (nodes net)" and lys: "map layer ?ns1 = map layer (nodes net)"
    and tys: "map type_n ?ns1 = map type_n (nodes net)"
    by (simp_all add: set_output_errors_frame)
  have lay1: "layered ?ns1 ?conns"
    by (rule layered_cong [OF wf_network_layered [OF assms] ids lys])
  have mx: "js_max (map layer ?ns1) = Some ?m"
    unfolding lys by (rule wf_network_max_layer [OF assms])
  have inv1: "errors_between ?cfg ?conns ?m ?m ?ns1"
    by (auto simp: errors_between_def)
  from backward_layers_layered [OF lay1 inv1, of ?m 0]
  obtain ns' where r: "forEach (backward_layer ?cfg ?conns) (rev [0..<?m]) ?ns1 = (None, ns')"
    and inv: "errors_between ?cfg ?conns 0 ?m ns'"
    and keep: "\<forall>j < length ?ns1. ?m \<le> layer (?ns1 ! j) \<or> type_n (?ns1 ! j) = Input \<longrightarrow>
                 error (ns' ! j) = error (?ns1 ! j)"
    by auto
  have ids': "map id_n ns' = map id_n ?ns1" and lys': "map layer ns' = map layer ?ns1"
    and tys': "map type_n ns' = map type_n ?ns1"
    and st: "map static_node ns' = map static_node ?ns1"
    by (simp_all add: backward_layers_frame [OF _ r] static_node_def)
  then have len: "length ns' = length ?ns1" by (metis length_map)
  have "map static_node ?ns1 = map static_node (nodes net)"
    by (rule set_output_errors_frame) (simp add: static_node_def)
  with st assms have wf': "wf_network (net\<lparr>nodes := ns'\<rparr>)"
    by (simp add: wf_network_def)
  have lay': "layered ns' ?conns" by (rule layered_cong [OF lay1 ids' lys'])
  have b: "backward net ts
       = (None, net\<lparr>nodes := ns', connections := map (updated_connection ?cfg ns') ?conns\<rparr>)"
    using r mx by (simp add: backward_def Let_def update_connections_layered [OF lay'])
  have h: "error (ns' ! j) = Some (backprop_error ?cfg ?conns ns' (ns' ! j))"
    if "j < length ns'" "type_n (ns' ! j) = Hidden" for j
  proof -
    from that(1) have "ns' ! j \<in> set (nodes (net\<lparr>nodes := ns'\<rparr>))" by simp
    from hidden_is_inner_layer(1) [OF wf' this] that(2)
    have "layer (ns' ! j) < ?m" by simp
    with inv that show ?thesis unfolding errors_between_def by simp
  qed
  have o: "error (ns' ! j) = error (?ns1 ! j)"
    if "j < length ns'" "type_n (ns' ! j) \<noteq> Hidden" for j
  proof -
    from that(1) have m: "ns' ! j \<in> set (nodes (net\<lparr>nodes := ns'\<rparr>))" by simp
    have "type_n (ns' ! j) = Input \<or> type_n (ns' ! j) = Output"
      using that(2) by (cases "type_n (ns' ! j)") simp_all
    with hidden_is_inner_layer(2) [OF wf' m]
    have "?m \<le> layer (ns' ! j) \<or> type_n (ns' ! j) = Input" by auto
    with nth_of_map_eq [OF lys', of j] nth_of_map_eq [OF tys', of j] that(1) len keep
    show ?thesis by auto
  qed
  from b h o wf' that show thesis by blast
qed

lemma backward_output_errors:
  assumes "wf_network net"
  shows "map error (filter (\<lambda>n. type_n n = Output) (nodes (snd (backward net ts))))
         = map (\<lambda>(k, n). Some (js_mul (js_sub (toNumber (at_index ts k)) (activation n))
                                  (activateDerivative (config net) (activation n))))
             (enumerate 0 (filter (\<lambda>n. type_n n = Output) (nodes net)))"
proof -
  let ?ns1 = "set_output_errors (config net) ts (nodes net)"
  from backward_wf [OF assms, of ts] obtain ns' where
    r: "backward net ts
       = (None, net\<lparr>nodes := ns',
            connections := map (updated_connection (config net) ns') (connections net)\<rparr>)"
    and h: "\<And>j. j < length ns' \<Longrightarrow> type_n (ns' ! j) = Hidden \<Longrightarrow>
       error (ns' ! j) = Some (backprop_error (config net) (connections net) ns' (ns' ! j))"
    and o: "\<And>j. j < length ns' \<Longrightarrow> type_n (ns' ! j) \<noteq> Hidden \<Longrightarrow>
       error (ns' ! j) = error (?ns1 ! j)"
    and wf': "wf_network (net\<lparr>nodes := ns'\<rparr>)"
    by blast
  let ?ks = "indices_where (\<lambda>n. type_n n = Output) (nodes net)"
  from r have n': "nodes (snd (backward net ts)) = ns'" by simp
  have "map type_n (nodes (snd (backward net ts))) = map type_n (nodes net)"
    by (simp add: backward_frame)
  with n' have ty: "map type_n ns' = map type_n (nodes net)" by simp
  have ks: "indices_where (\<lambda>n. type_n n = Output) ns' = ?ks"
    by (rule indices_where_cong [OF ty])
  have e: "error (ns' ! (?ks ! k))
      = Some (js_mul (js_sub (toNumber (at_index ts k)) (activation (nodes net ! (?ks ! k))))
                (activateDerivative (config net) (activation (nodes net ! (?ks ! k)))))"
    if "k < length ?ks" for k
  proof -
    from that have "?ks ! k \<in> set ?ks" by simp
    then have j: "?ks ! k < length ns'" and t: "type_n (ns' ! (?ks ! k)) = Output"
      unfolding ks [symmetric] by (simp_all add: indices_where_props(2))
    from set_output_errors_spec [of "config net" ts "nodes net"] that
    have "?ns1 ! (?ks ! k) = (nodes net ! (?ks ! k))\<lparr>error := Some (js_mul
               (js_sub (toNumber (at_index ts k)) (activation (nodes net ! (?ks ! k))))
               (activateDerivative (config net) (activation (nodes net ! (?ks ! k)))))\<rparr>"
      by blast
    with o [OF j] t show ?thesis by simp
  qed
  have "filter (\<lambda>n. type_n n = Output) ns' = map (\<lambda>i. ns' ! i) ?ks"
    by (simp only: filter_conv_indices [of _ ns'] ks)
  then have l: "map error (filter (\<lambda>n. type_n n = Output) ns') = map (\<lambda>i. error (ns' ! i)) ?ks"
    by (simp only: map_map o_def)
  have "filter (\<lambda>n. type_n n = Output) (nodes net) = map (\<lambda>i. nodes net ! i) ?ks"
    by (simp only: filter_conv_indices [of _ "nodes net"])
  then have rr: "map (\<lambda>(k, n). Some (js_mul (js_sub (toNumber (at_index ts k)) (activation n))
                                  (activateDerivative (config net) (activation n))))
             (enumerate 0 (filter (\<lambda>n. type_n n = Output) (nodes net)))
      = map (\<lambda>k. Some (js_mul (js_sub (toNumber (at_index ts k)) (activation (nodes net ! (?ks ! k))))
                (activateDerivative (config net) (activation (nodes net ! (?ks ! k))))))
          [0..<length ?ks]"
    by (intro nth_equalityI) (simp_all add: nth_enumerate_eq)
  have "map (\<lambda>i. error (ns' ! i)) ?ks
      = map (\<lambda>k. Some (js_mul (js_sub (toNumber (at_index ts k)) (activation (nodes net ! (?ks ! k))))
                (activateDerivative (config net) (activation (nodes net ! (?ks ! k))))))
          [0..<length ?ks]"
    by (intro nth_equalityI) (simp_all add: e)
  with l rr n' show ?thesis by (simp only:)
qed

lemma backward_input_errors:
  assumes "wf_network net"
  shows "map error (filter (\<lambda>n. type_n n = Input) (nodes (snd (backward net ts))))
         = map error (filter (\<lambda>n. type_n n = Input) (nodes net))"
proof -
  let ?ns1 = "set_output_errors (config net) ts (nodes net)"
  from backward_wf [OF assms, of ts] obtain ns' where
    r: "backward net ts
       = (None, net\<lparr>nodes := ns',
            connections := map (updated_connection (config net) ns') (connections net)\<rparr>)"
    and h: "\<And>j. j < length ns' \<Longrightarrow> type_n (ns' ! j) = Hidden \<Longrightarrow>
       error (ns' ! j) = Some (backprop_error (config net) (connections net) ns' (ns' ! j))"
    and o: "\<And>j. j < length ns' \<Longrightarrow> type_n (ns' ! j) \<noteq> Hidden \<Longrightarrow>
       error (ns' ! j) = error (?ns1 ! j)"
    and wf': "wf_network (net\<lparr>nodes := ns'\<rparr>)"
    by blast
  let ?ks = "indices_where (\<lambda>n. type_n n = Input) (nodes net)"
  from r have n': "nodes (snd (backward net ts)) = ns'" by simp
  have "map type_n (nodes (snd (backward net ts))) = map type_n (nodes net)"
    by (simp add: backward_frame)
  with n' have ty: "map type_n ns' = map type_n (nodes net)" by simp
  then have len: "length ns' = length (nodes net)" by (rule map_eq_imp_length_eq)
  have ks: "indices_where (\<lambda>n. type_n n = Input) ns' = ?ks"
    by (rule indices_where_cong [OF ty])
  have e: "error (ns' ! j) = error (nodes net ! j)" if "j \<in> set ?ks" for j
  proof -
    from that have j: "j < length ns'" and t: "type_n (ns' ! j) = Input"
      unfolding ks [symmetric] by (simp_all add: indices_where_props(2))
    from j len t nth_of_map_eq [OF ty, of j] have "type_n (nodes net ! j) \<noteq> Output" by simp
    with set_output_errors_spec [of "config net" ts "nodes net"]
    have "?ns1 ! j = nodes net ! j" by blast
    with o [OF j] t show ?thesis by simp
  qed
  have "filter (\<lambda>n. type_n n = Input) ns' = map (\<lambda>i. ns' ! i) ?ks"
    by (simp only: filter_conv_indices [of _ ns'] ks)
  then have l: "map error (filter (\<lambda>n. type_n n = Input) ns') = map (\<lambda>i. error (ns' ! i)) ?ks"
    by (simp only: map_map o_def)
  have "filter (\<lambda>n. type_n n = Input) (nodes net) = map (\<lambda>i. nodes net ! i) ?ks"
    by (simp only: filter_conv_indices [of _ "nodes net"])
  then have rr: "map error (filter (\<lambda>n. type_n n = Input) (nodes net))
      = map (\<lambda>i. error (nodes net ! i)) ?ks"
    by (simp only: map_map o_def)
  have "map (\<lambda>i. error (ns' ! i)) ?ks = map (\<lambda>i. error (nodes net ! i)) ?ks"
    by (rule map_cong [OF refl]) (rule e)
  with l rr n' show ?thesis by (simp only:)
qed

lemma enumerate_targets:
  assumes "length ts = length xs"
  shows "map (\<lambda>(k, n). F (toNumber (at_index ts k)) n) (enumerate 0 xs)
         = map (\<lambda>(t, n). F t n) (zip ts xs)"
  using assms by (intro nth_equalityI) (simp_all add: nth_enumerate_eq at_index_def)

lemma backward_hidden_errors:
  assumes "wf_network net" "n \<in> set (nodes (snd (backward net ts)))" "type_n n = Hidden"
  shows "error n = Some (js_mul (activateDerivative (config net) (activation n))
                     (weighted_error (nodes (snd (backward net ts))) (connections net) n))"
proof -
  from backward_wf [OF assms(1), of ts] obtain ns' where
    r: "backward net ts
       = (None, net\<lparr>nodes := ns',
            connections := map (updated_connection (config net) ns') (connections net)\<rparr>)"
    and h: "\<And>j. j < length ns' \<Longrightarrow> type_n (ns' ! j) = Hidden \<Longrightarrow>
       error (ns' ! j) = Some (backprop_error (config net) (connections net) ns' (ns' ! j))"
    and o: "\<And>j. j < length ns' \<Longrightarrow> type_n (ns' ! j) \<noteq> Hidden \<Longrightarrow>
       error (ns' ! j) = error (set_output_errors (config net) ts (nodes net) ! j)"
    and wf': "wf_network (net\<lparr>nodes := ns'\<rparr>)"
    by blast
  from r have n': "nodes (snd (backward net ts)) = ns'" by simp
  with assms(2) obtain j where "j < length ns'" "ns' ! j = n"
    unfolding in_set_conv_nth by auto
  with h [of j] assms(3) n' show ?thesis
    by (simp add: backprop_error_def js_mul_commute)
qed

lemma backward_connections:
  assumes "wf_network net"
  shows "fst (backward net ts) = None"
    and "connections (snd (backward net ts))
         = map (updated_connection (config net) (nodes (snd (backward net ts)))) (connections net)"
proof -
  from backward_wf [OF assms, of ts] obtain ns' where
    r: "backward net ts
       = (None, net\<lparr>nodes := ns',
            connections := map (updated_connection (config net) ns') (connections net)\<rparr>)"
    and h: "\<And>j. j < length ns' \<Longrightarrow> type_n (ns' ! j) = Hidden \<Longrightarrow>
       error (ns' ! j) = Some (backprop_error (config net) (connections net) ns' (ns' ! j))"
    and o: "\<And>j. j < length ns' \<Longrightarrow> type_n (ns' ! j) \<noteq> Hidden \<Longrightarrow>
       error (ns' ! j) = error (set_output_errors (config net) ts (nodes net) ! j)"
    and wf': "wf_network (net\<lparr>nodes := ns'\<rparr>)"
    by blast
  from r show "fst (backward net ts) = None"
    and "connections (snd (backward net ts))
         = map (updated_connection (config net) (nodes (snd (backward net ts)))) (connections net)"
    by simp_all
qed

lemma static_new_node:
  "static_node (new_node rnd K l j i) = static_node (new_node rnd' K l j i)"
  by (simp add: static_node_def new_node_def)

lemma static_create_nodes:
  "map static_node (create_nodes rnd K l nid szs) = map static_node (create_nodes rnd' K l nid szs)"
  by (induction szs arbitrary: l nid) (simp_all add: static_new_node)

lemma map_product:
  "map (map_prod f g) (List.product xs ys) = List.product (map f xs) (map g ys)"
  by (induction xs) (simp_all add: o_def)

lemma static_filter_layer:
  "map static_node (filter (\<lambda>n. layer n = l) ns)
   = filter (\<lambda>s. fst (snd (snd (snd s))) = l) (map static_node ns)"
  by (simp add: filter_map o_def static_node_def)

lemma static_connection_pairs:
  "map (map_prod static_node static_node) (connection_pairs ns K)
   = concat (map (\<lambda>l. List.product
        (filter (\<lambda>s. fst (snd (snd (snd s))) = l) (map static_node ns))
        (filter (\<lambda>s. fst (snd (snd (snd s))) = l + 1) (map static_node ns)))
      [0..<K - 1])"
  unfolding connection_pairs_def map_concat map_map o_def map_product static_filter_layer ..

lemma static_create_connections:
  "map static_connection (create_connections rnd d ns K)
   = map (\<lambda>(a, b). (''conn-'' @ fst a @ ''-'' @ fst b, fst a, fst b))
       (map (map_prod static_node static_node) (connection_pairs ns K))"
proof -
  have "map static_connection (create_connections rnd d ns K)
      = map ((\<lambda>(a, b). (''conn-'' @ id_n a @ ''-'' @ id_n b, id_n a, id_n b)) \<circ> snd)
          (enumerate 0 (connection_pairs ns K))"
    by (simp add: create_connections_def new_connection_def static_connection_def
        case_prod_unfold o_def)
  also have "\<dots> = map (\<lambda>(a, b). (''conn-'' @ id_n a @ ''-'' @ id_n b, id_n a, id_n b))
      (connection_pairs ns K)"
    by (simp only: map_map [symmetric] map_snd_enumerate)
  also have "\<dots> = map (\<lambda>(a, b). (''conn-'' @ fst a @ ''-'' @ fst b, fst a, fst b))
       (map (map_prod static_node static_node) (connection_pairs ns K))"
    by (simp add: static_node_def case_prod_unfold o_def)
  finally show ?thesis .
qed

lemma static_initializeNetwork:
  "map static_node (nodes (initializeNetwork cfg rnd))
   = map static_node (nodes (initializeNetwork cfg rnd'))"
  "map static_connection (connections (initializeNetwork cfg rnd))
   = map static_connection (connections (initializeNetwork cfg rnd'))"
proof -
  show n: "map static_node (nodes (initializeNetwork cfg rnd))
      = map static_node (nodes (initializeNetwork cfg rnd'))"
    unfolding nodes_initializeNetwork by (rule static_create_nodes)
  show "map static_connection (connections (initializeNetwork cfg rnd))
      = map static_connection (connections (initializeNetwork cfg rnd'))"
    unfolding connections_initializeNetwork static_create_connections static_connection_pairs
    using n unfolding nodes_initializeNetwork by (simp only:)
qed

text \<open>
  Every network that \<open>initializeNetwork\<close> makes from positive widths is well formed, and both
  passes keep a network well formed.
\<close>

lemma wf_network_built:
  assumes "0 < inputSize cfg" "\<forall>h \<in> set (hiddenLayers cfg). 0 < h" "0 < outputSize cfg"
  shows "wf_network (initializeNetwork cfg rnd)"
  using assms static_initializeNetwork [of cfg rnd "\<lambda>k. 0"]
  by (simp add: wf_network_def config_initializeNetwork)

lemma wf_network_forward: "wf_network net \<Longrightarrow> wf_network (snd (forward net inputs))"
  by (rule wf_network_frame)
     (simp_all add: forward_config forward_connections forward_frame static_node_def)

lemma wf_network_backward: "wf_network net \<Longrightarrow> wf_network (snd (backward net ts))"
  by (rule wf_network_frame)
     (simp_all add: backward_config backward_connections_frame backward_frame static_node_def
        static_connection_def)

text \<open>
  With a target vector shorter than the output layer, \<open>backward\<close> still writes the error of
  every output neuron: past the end of the targets the subtraction has an \<open>undefined\<close>
  operand and the error is \<open>NaN\<close>.
\<close>

lemma backward_short_targets:
  assumes "wf_network net" "length ts \<le> k" "k < outputSize (config net)"
  shows "error (filter (\<lambda>n. type_n n = Output) (nodes (snd (backward net ts))) ! k) = Some NaN"
proof -
  let ?os = "filter (\<lambda>n. type_n n = Output) (nodes net)"
  let ?os' = "filter (\<lambda>n. type_n n = Output) (nodes (snd (backward net ts)))"
  let ?G = "\<lambda>(k, n). Some (js_mul (js_sub (toNumber (at_index ts k)) (activation n))
                                  (activateDerivative (config net) (activation n)))"
  have len: "length ?os = outputSize (config net)" by (rule wf_network_counts(2) [OF assms(1)])
  have m: "map error ?os' = map ?G (enumerate 0 ?os)"
    by (rule backward_output_errors [OF assms(1)])
  from arg_cong [OF m, of length] have len': "length ?os' = length ?os" by simp
  with assms(3) len have "error (?os' ! k) = map error ?os' ! k" by simp
  also have "\<dots> = map ?G (enumerate 0 ?os) ! k" by (simp only: m)
  also have "\<dots> = Some NaN"
    using assms(2,3) len by (simp add: nth_enumerate_eq at_index_def)
  finally show ?thesis .
qed

section \<open>Activation library\<close>

text \<open>
  C5. On every real \<open>x\<close> and activated value \<open>a\<close>: sigmoid is \<open>1/(1+e^-x)\<close> with derivative
  \<open>a(1-a)\<close>; relu is \<open>max(0,x)\<close> with derivative \<open>a\<close> when \<open>a > 0\<close> and \<open>0\<close> otherwise; tanh is
  \<open>tanh x\<close> with derivative \<open>1 - a^2\<close>; any other selector name gives the sigmoid formulas for
  both.
\<close>

theorem activation_library:
  "activate (cfg\<lparr>activationFunction := ''sigmoid''\<rparr>) (Num x) = Num (1 / (1 + exp (- x)))
   \<and> activateDerivative (cfg\<lparr>activationFunction := ''sigmoid''\<rparr>) (Num a) = Num (a * (1 - a))
   \<and> activate (cfg\<lparr>activationFunction := ''relu''\<rparr>) (Num x) = Num (max 0 x)
   \<and> activateDerivative (cfg\<lparr>activationFunction := ''relu''\<rparr>) (Num a)
       = Num (if a > 0 then a else 0)
   \<and> activate (cfg\<lparr>activationFunction := ''tanh''\<rparr>) (Num x) = Num (tanh x)
   \<and> activateDerivative (cfg\<lparr>activationFunction := ''tanh''\<rparr>) (Num a) = Num (1 - a\<^sup>2)
   \<and> (name \<noteq> ''sigmoid'' \<and> name \<noteq> ''relu'' \<and> name \<noteq> ''tanh'' \<longrightarrow>
        activate (cfg\<lparr>activationFunction := name\<rparr>) (Num x) = Num (1 / (1 + exp (- x)))
        \<and> activateDerivative (cfg\<lparr>activationFunction := name\<rparr>) (Num a) = Num (a * (1 - a)))"
  by (simp add: activate_def activateDerivative_def power2_eq_square)

theorem activation_library_witness:
  "''linear'' \<noteq> ''sigmoid'' \<and> ''linear'' \<noteq> ''relu'' \<and> ''linear'' \<noteq> ''tanh''
   \<and> activate (cfg_ex\<lparr>activationFunction := ''linear''\<rparr>) (Num 0) = Num (1 / 2)
   \<and> activateDerivative (cfg_ex\<lparr>activationFunction := ''linear''\<rparr>) (Num (1 / 2))
       = Num (1 / 4)"
  using activation_library [of cfg_ex 0 "1 / 2" "''linear''"] by simp


section \<open>Loss\<close>

lemma squared_error_fold:
  "length ps = length ts \<Longrightarrow>
   foldl (\<lambda>acc (i, pred). js_add acc
            (js_mul (js_sub pred (toNumber (at_index (map Num (pre @ ts)) i)))
                    (js_sub pred (toNumber (at_index (map Num (pre @ ts)) i)))))
         (Num s) (enumerate (length pre) (map Num ps))
   = Num (s + (\<Sum>(p, t)\<leftarrow>zip ps ts. (p - t)\<^sup>2))"
proof (induction ps arbitrary: ts pre s)
  case Nil
  then show ?case by simp
next
  case (Cons p ps)
  then obtain t ts' where ts: "ts = t # ts'" and len: "length ps = length ts'"
    by (cases ts) auto
  have at: "at_index (map Num (pre @ t # ts')) (length pre) = Some (Num t)"
    by (simp add: at_index_def nth_append)
  have ih: "foldl (\<lambda>acc (i, pred). js_add acc
            (js_mul (js_sub pred (toNumber (at_index (map Num (pre @ t # ts')) i)))
                    (js_sub pred (toNumber (at_index (map Num (pre @ t # ts')) i)))))
         (Num (s + (p - t)\<^sup>2)) (enumerate (Suc (length pre)) (map Num ps))
   = Num (s + (p - t)\<^sup>2 + (\<Sum>(p, t)\<leftarrow>zip ps ts'. (p - t)\<^sup>2))"
    using Cons.IH [OF len, of "pre @ [t]" "s + (p - t)\<^sup>2"] by simp
  show ?case
    unfolding ts using at ih by (simp add: power2_eq_square add.assoc)
qed

lemma calculateLoss_mse:
  assumes "length ps = length ts" and "ps \<noteq> []"
  shows "calculateLoss (map Num ps) (map Num ts)
         = Num ((\<Sum>(p, t)\<leftarrow>zip ps ts. (p - t)\<^sup>2) / real (length ps))"
  using squared_error_fold [OF assms(1), of "[]" 0] assms(2)
  by (simp add: calculateLoss_def Let_def)

lemma squared_error_nonneg: "0 \<le> (\<Sum>(p, t)\<leftarrow>zip ps ts. ((p::real) - t)\<^sup>2)"
  by (rule sum_list_nonneg) auto

lemma squared_error_self: "(\<Sum>(p, t)\<leftarrow>zip ps ps. ((p::real) - t)\<^sup>2) = 0"
  by (induction ps) auto


text \<open>
  C9. For real vectors of equal length, not empty, \<open>calculateLoss\<close> is the mean of the
  squared differences; it is not negative, and the loss of a vector against itself is \<open>0\<close>.
\<close>

theorem loss_mean_squared_error:
  assumes "length ps = length ts" and "ps \<noteq> []"
  shows "calculateLoss (map Num ps) (map Num ts)
           = Num ((\<Sum>(p, t)\<leftarrow>zip ps ts. (p - t)\<^sup>2) / real (length ps))
         \<and> 0 \<le> (\<Sum>(p, t)\<leftarrow>zip ps ts. (p - t)\<^sup>2) / real (length ps)
         \<and> calculateLoss (map Num ps) (map Num ps) = Num 0"
  using calculateLoss_mse [OF assms] calculateLoss_mse [OF refl assms(2)]
    squared_error_nonneg [of ps ts]
  by (simp add: squared_error_self)

theorem loss_mean_squared_error_witness:
  "length [1, 3 :: real] = length [0, 1 :: real] \<and> [1, 3 :: real] \<noteq> []
   \<and> calculateLoss [Num 1, Num 3] [Num 0, Num 1] = Num (5 / 2)
   \<and> calculateLoss [Num 1, Num 3] [Num 1, Num 3] = Num 0"
  using loss_mean_squared_error [of "[1, 3]" "[0, 1]"] by simp

section \<open>What the passes leave alone\<close>

text \<open>
  C10. \<open>forward\<close> changes activations only: position by position the nodes keep their id,
  layer, type, bias and coordinates (and error), the node list keeps its length, and the
  connections and the configuration are the same, whether \<open>forward\<close> returns or throws.
\<close>

theorem forward_changes_only_activations:
  "map id_n (nodes (snd (forward net inputs))) = map id_n (nodes net)
   \<and> map layer (nodes (snd (forward net inputs))) = map layer (nodes net)
   \<and> map type_n (nodes (snd (forward net inputs))) = map type_n (nodes net)
   \<and> map bias (nodes (snd (forward net inputs))) = map bias (nodes net)
   \<and> map x_n (nodes (snd (forward net inputs))) = map x_n (nodes net)
   \<and> map y_n (nodes (snd (forward net inputs))) = map y_n (nodes net)
   \<and> map error (nodes (snd (forward net inputs))) = map error (nodes net)
   \<and> connections (snd (forward net inputs)) = connections net
   \<and> config (snd (forward net inputs)) = config net"
  by (simp add: forward_frame forward_connections forward_config)

text \<open>
  C1, as the code has it: \<open>backward\<close> never writes a bias. After every call every neuron has
  the bias it had before the call.
\<close>

theorem backward_keeps_bias:
  "map bias (nodes (snd (backward net expectedOutputs))) = map bias (nodes net)"
  by (simp add: backward_frame)


text \<open>
  C1 as stated fails: after a forward and a backward pass on the small network, with learning
  rate \<open>1/2\<close>, the output neuron has the error signal \<open>2\<close> and still the bias \<open>1/2\<close> of its
  construction.
\<close>

theorem bias_not_trained_counterexample:
  "type_n (nodes net_ex ! 2) = Output
   \<and> bias (nodes net_ex ! 2) = Num (1 / 2)
   \<and> learningRate (config net_ex) = Num (1 / 2)
   \<and> error (nodes (snd (backward (snd (forward net_ex [Num 1])) [Num 3])) ! 2) = Some (Num 2)
   \<and> bias (nodes (snd (backward (snd (forward net_ex [Num 1])) [Num 3])) ! 2) = Num (1 / 2)"
  by (simp add: eval_defs)

section \<open>Topology\<close>

text \<open>
  C6. For input width \<open>I\<close>, hidden widths \<open>H1..Hk\<close> and output width \<open>O\<close>, construction makes
  \<open>I + H1 + ... + Hk + O\<close> neurons and \<open>I*H1 + H1*H2 + ... + Hk*O\<close> connections (\<open>I*O\<close> without
  hidden layers); in creation order the first \<open>I\<close> neurons are the layer \<open>0\<close> and typed input,
  the last \<open>O\<close> are the last layer and typed output, and all between are typed hidden. This
  holds for all widths, zero included.
\<close>

theorem topology_size:
  "length (nodes (initializeNetwork cfg rnd))
     = inputSize cfg + sum_list (hiddenLayers cfg) + outputSize cfg
   \<and> length (connections (initializeNetwork cfg rnd))
     = (\<Sum>(a, b)\<leftarrow>zip (inputSize cfg # hiddenLayers cfg) (hiddenLayers cfg @ [outputSize cfg]). a * b)
   \<and> map type_n (nodes (initializeNetwork cfg rnd))
     = replicate (inputSize cfg) Input @ replicate (sum_list (hiddenLayers cfg)) Hidden
       @ replicate (outputSize cfg) Output
   \<and> map layer (nodes (initializeNetwork cfg rnd))
     = replicate (inputSize cfg) 0
       @ concat (map (\<lambda>(l, h). replicate h l) (enumerate 1 (hiddenLayers cfg)))
       @ replicate (outputSize cfg) (Suc (length (hiddenLayers cfg)))"
  by (rule built_topology)

theorem topology_size_witness:
  "length (nodes net_ex) = 3 \<and> length (connections net_ex) = 2
   \<and> map type_n (nodes net_ex) = [Input, Hidden, Output]
   \<and> map layer (nodes net_ex) = [0, 1, 2]"
  using topology_size [of cfg_ex "\<lambda>k. 3 / 4"]
  by (simp add: net_ex_def cfg_ex_def)

text \<open>
  C7. In every constructed network the node ids are unique and a connection runs from \<open>a\<close> to
  \<open>b\<close> exactly when \<open>a\<close> is one layer below \<open>b\<close>; \<open>forward\<close> and \<open>backward\<close> keep this, and keep
  the list of connections with their ids and endpoints as it is.
\<close>

theorem layered_connectivity:
  "adjacent_layers_connected (initializeNetwork cfg rnd)
   \<and> (adjacent_layers_connected net \<longrightarrow>
        adjacent_layers_connected (snd (forward net inputs))
        \<and> adjacent_layers_connected (snd (backward net targets)))
   \<and> connections (snd (forward net inputs)) = connections net
   \<and> map id_c (connections (snd (backward net targets))) = map id_c (connections net)
   \<and> map fromNodeId (connections (snd (backward net targets))) = map fromNodeId (connections net)
   \<and> map toNodeId (connections (snd (backward net targets))) = map toNodeId (connections net)"
  by (simp add: adjacent_layers_connected_built forward_keeps_connectivity
      backward_keeps_connectivity forward_connections backward_connections_frame)

theorem layered_connectivity_witness:
  "adjacent_layers_connected net_ex
   \<and> adjacent_layers_connected (snd (forward net_ex [Num 1]))
   \<and> adjacent_layers_connected (snd (backward net_ex [Num 3]))
   \<and> map toNodeId (connections (snd (backward net_ex [Num 3]))) = [''node-1'', ''node-2'']"
proof -
  have h: "adjacent_layers_connected net_ex"
    by (simp add: adjacent_layers_connected_def eval_defs)
  from h layered_connectivity [of cfg_ex "\<lambda>k. 3 / 4" net_ex "[Num 1]" "[Num 3]"]
  show ?thesis by (simp add: eval_defs)
qed

section \<open>The forward pass\<close>

text \<open>
  C3. On a well-formed network \<open>forward\<close>, which takes the layers \<open>1, 2, ...\<close> in this order,
  returns, and afterwards every neuron of a layer from \<open>1\<close> on has as activation the selected
  activation function applied to its bias plus, over its incoming connections, source
  activation times weight. What it returns are the activations of the last layer, whose
  neurons are the ones typed output, in the order of the node list, which is still the order
  of creation; there are \<open>outputSize\<close> of them.
\<close>

theorem forward_computes_activations:
  assumes "wf_network net"
  shows "fst (forward net inputs)
         = Inr (map activation
                 (filter (\<lambda>n. layer n = Suc (length (hiddenLayers (config net))))
                         (nodes (snd (forward net inputs)))))
   \<and> filter (\<lambda>n. layer n = Suc (length (hiddenLayers (config net))))
              (nodes (snd (forward net inputs)))
       = filter (\<lambda>n. type_n n = Output) (nodes (snd (forward net inputs)))
   \<and> length (filter (\<lambda>n. type_n n = Output) (nodes (snd (forward net inputs))))
       = outputSize (config net)
   \<and> map id_n (nodes (snd (forward net inputs)))
       = map id_n (nodes (initializeNetwork (config net) (\<lambda>k. 0)))
   \<and> (\<forall>n \<in> set (nodes (snd (forward net inputs))). 1 \<le> layer n \<longrightarrow>
         activation n
         = activate (config net)
             (weighted_input (nodes (snd (forward net inputs)))
                (connections (snd (forward net inputs))) n))"
proof -
  from forward_wf [OF assms, of inputs] obtain ns' where
    r: "forward net inputs
       = (Inr (map activation (filter (\<lambda>n. type_n n = Output) ns')), net\<lparr>nodes := ns'\<rparr>)"
    and a: "\<And>j. j < length ns' \<Longrightarrow> 1 \<le> layer (ns' ! j) \<Longrightarrow>
       activation (ns' ! j) = activate (config net) (weighted_input ns' (connections net) (ns' ! j))"
    and b: "\<And>j. j < length ns' \<Longrightarrow> layer (ns' ! j) = 0 \<Longrightarrow>
       activation (ns' ! j) = activation (set_inputs inputs (nodes net) ! j)"
    and wf': "wf_network (net\<lparr>nodes := ns'\<rparr>)"
    by blast
  have o: "filter (\<lambda>n. type_n n = Output) ns'
      = filter (\<lambda>n. layer n = Suc (length (hiddenLayers (config net)))) ns'"
    using output_is_last_layer [OF wf'] by simp
  have c: "length (filter (\<lambda>n. type_n n = Output) ns') = outputSize (config net)"
    using wf_network_counts(2) [OF wf'] by simp
  have i: "map id_n ns' = map id_n (nodes (initializeNetwork (config net) (\<lambda>k. 0)))"
    using wf' static_node_maps(1) [of ns' "nodes (initializeNetwork (config net) (\<lambda>k. 0))"]
    by (simp add: wf_network_def)
  have "activation n = activate (config net) (weighted_input ns' (connections net) n)"
    if "n \<in> set ns'" "1 \<le> layer n" for n
    using that a unfolding in_set_conv_nth by blast
  with r o c i show ?thesis by simp
qed


theorem forward_computes_activations_witness:
  "wf_network net_ex
   \<and> fst (forward net_ex [Num 1]) = Inr [Num 1]
   \<and> length (filter (\<lambda>n. type_n n = Output) (nodes (snd (forward net_ex [Num 1])))) = 1
   \<and> layer (nodes (snd (forward net_ex [Num 1])) ! 1) = 1
   \<and> activation (nodes (snd (forward net_ex [Num 1])) ! 1)
       = activate cfg_ex
           (weighted_input (nodes (snd (forward net_ex [Num 1])))
              (connections (snd (forward net_ex [Num 1])))
              (nodes (snd (forward net_ex [Num 1])) ! 1))"
proof -
  have h: "wf_network net_ex"
    by (simp add: wf_network_def static_node_def static_connection_def eval_defs)
  have m: "nodes (snd (forward net_ex [Num 1])) ! 1 \<in> set (nodes (snd (forward net_ex [Num 1])))"
    by (simp add: eval_defs)
  have c: "config net_ex = cfg_ex" by (simp add: net_ex_def initializeNetwork_def Let_def)
  have l: "layer (nodes (snd (forward net_ex [Num 1])) ! 1) = 1" by (simp add: eval_defs)
  from forward_computes_activations [OF h, of "[Num 1]"] m l c
  have "activation (nodes (snd (forward net_ex [Num 1])) ! 1)
       = activate cfg_ex
           (weighted_input (nodes (snd (forward net_ex [Num 1])))
              (connections (snd (forward net_ex [Num 1])))
              (nodes (snd (forward net_ex [Num 1])) ! 1))"
    by simp
  moreover have "fst (forward net_ex [Num 1]) = Inr [Num 1]"
    "length (filter (\<lambda>n. type_n n = Output) (nodes (snd (forward net_ex [Num 1])))) = 1"
    by (simp_all add: eval_defs)
  ultimately show ?thesis using h l by simp
qed

text \<open>
  C8. On a well-formed network \<open>forward\<close> never throws and returns a result, for every input
  vector. The \<open>i\<close>-th neuron typed input, in the order of the node list, which is the order of
  creation, gets \<open>inputs[i] || 0\<close>: for a vector of reals that is \<open>inputs[i]\<close>, and \<open>0\<close> where
  the vector is too short.
\<close>

theorem forward_sets_inputs:
  assumes "wf_network net"
  shows "(\<exists>outs. fst (forward net inputs) = Inr outs)
   \<and> map activation (filter (\<lambda>n. type_n n = Input) (nodes (snd (forward net inputs))))
       = map (\<lambda>i. or_zero (at_index inputs i)) [0..<inputSize (config net)]
   \<and> map activation (filter (\<lambda>n. type_n n = Input) (nodes (snd (forward net (map Num rs)))))
       = map Num (take (inputSize (config net)) rs)
         @ replicate (inputSize (config net) - length rs) (Num 0)"
proof -
  from forward_wf [OF assms, of inputs] have "\<exists>outs. fst (forward net inputs) = Inr outs"
    by (metis fst_conv)
  then show ?thesis
    by (simp add: forward_inputs [OF assms] or_zero_reals)
qed

theorem forward_sets_inputs_witness:
  "wf_network net_ex
   \<and> fst (forward net_ex []) = Inr [Num (3 / 4)]
   \<and> map activation (filter (\<lambda>n. type_n n = Input) (nodes (snd (forward net_ex (map Num [])))))
       = [Num 0]
   \<and> map activation (filter (\<lambda>n. type_n n = Input) (nodes (snd (forward net_ex (map Num [5, 7])))))
       = [Num 5]"
proof -
  have h: "wf_network net_ex"
    by (simp add: wf_network_def static_node_def static_connection_def eval_defs)
  have c: "inputSize (config net_ex) = 1" by (simp add: eval_defs)
  have "fst (forward net_ex []) = Inr [Num (3 / 4)]" by (simp add: eval_defs)
  with h c forward_sets_inputs [OF h, of "[]" "[]"] forward_sets_inputs [OF h, of "[]" "[5, 7]"]
  show ?thesis by simp
qed

section \<open>The backward pass\<close>

text \<open>
  C2. On a well-formed network and a target vector of length \<open>outputSize\<close>, \<open>backward\<close> throws
  nothing, and afterwards: the \<open>i\<close>-th output neuron has the error
  \<open>(target_i - activation_i) * activationDerivative(activation_i)\<close>; every hidden neuron has
  the error \<open>activationDerivative(activation)\<close> times the sum, over its outgoing connections,
  of the final error of the destination times the weight the connection had before the call;
  the input neurons keep the error they had; no activation has changed; and every connection
  has as gradient the final error of its destination times the activation of its source, and
  as weight its old weight plus \<open>learningRate\<close> times that gradient.
\<close>

theorem backward_computes_errors_and_updates:
  assumes "wf_network net" "length targets = outputSize (config net)"
  shows "fst (backward net targets) = None
   \<and> map error (filter (\<lambda>n. type_n n = Output) (nodes (snd (backward net targets))))
       = map (\<lambda>(t, n). Some (js_mul (js_sub t (activation n))
                                (activateDerivative (config net) (activation n))))
           (zip targets (filter (\<lambda>n. type_n n = Output) (nodes net)))
   \<and> (\<forall>n \<in> set (nodes (snd (backward net targets))). type_n n = Hidden \<longrightarrow>
         error n = Some (js_mul (activateDerivative (config net) (activation n))
                      (weighted_error (nodes (snd (backward net targets))) (connections net) n)))
   \<and> map error (filter (\<lambda>n. type_n n = Input) (nodes (snd (backward net targets))))
       = map error (filter (\<lambda>n. type_n n = Input) (nodes net))
   \<and> map activation (nodes (snd (backward net targets))) = map activation (nodes net)
   \<and> map gradient (connections (snd (backward net targets)))
       = map (\<lambda>c. js_mul (error_of (nodes (snd (backward net targets))) (toNodeId c))
                    (activation_of (nodes (snd (backward net targets))) (fromNodeId c)))
           (connections net)
   \<and> map weight (connections (snd (backward net targets)))
       = map (\<lambda>c. js_add (weight c) (js_mul (learningRate (config net))
                    (js_mul (error_of (nodes (snd (backward net targets))) (toNodeId c))
                       (activation_of (nodes (snd (backward net targets))) (fromNodeId c)))))
           (connections net)"
proof -
  have "length targets = length (filter (\<lambda>n. type_n n = Output) (nodes net))"
    using assms(2) wf_network_counts(2) [OF assms(1)] by simp
  from enumerate_targets [OF this, of "\<lambda>t n. Some (js_mul (js_sub t (activation n))
      (activateDerivative (config net) (activation n)))"]
  have out: "map error (filter (\<lambda>n. type_n n = Output) (nodes (snd (backward net targets))))
       = map (\<lambda>(t, n). Some (js_mul (js_sub t (activation n))
                                (activateDerivative (config net) (activation n))))
           (zip targets (filter (\<lambda>n. type_n n = Output) (nodes net)))"
    by (simp only: backward_output_errors [OF assms(1)])
  have act: "map activation (nodes (snd (backward net targets))) = map activation (nodes net)"
    by (simp add: backward_frame)
  have g: "map gradient (connections (snd (backward net targets)))
       = map (\<lambda>c. js_mul (error_of (nodes (snd (backward net targets))) (toNodeId c))
                    (activation_of (nodes (snd (backward net targets))) (fromNodeId c)))
           (connections net)"
    by (simp add: backward_connections(2) [OF assms(1)] updated_connection_def o_def)
  have w: "map weight (connections (snd (backward net targets)))
       = map (\<lambda>c. js_add (weight c) (js_mul (learningRate (config net))
                    (js_mul (error_of (nodes (snd (backward net targets))) (toNodeId c))
                       (activation_of (nodes (snd (backward net targets))) (fromNodeId c)))))
           (connections net)"
    by (simp add: backward_connections(2) [OF assms(1)] updated_connection_def o_def)
  from out act g w backward_connections(1) [OF assms(1)] backward_input_errors [OF assms(1)]
    backward_hidden_errors [OF assms(1)]
  show ?thesis by blast
qed

theorem backward_computes_errors_and_updates_witness:
  "wf_network (snd (forward net_ex [Num 1]))
   \<and> length [Num 3] = outputSize (config (snd (forward net_ex [Num 1])))
   \<and> fst (backward (snd (forward net_ex [Num 1])) [Num 3]) = None
   \<and> map error (nodes (snd (backward (snd (forward net_ex [Num 1])) [Num 3])))
       = [None, Some (Num 1), Some (Num 2)]
   \<and> map error (filter (\<lambda>n. type_n n = Output)
          (nodes (snd (backward (snd (forward net_ex [Num 1])) [Num 3]))))
       = map (\<lambda>(t, n). Some (js_mul (js_sub t (activation n))
                                (activateDerivative cfg_ex (activation n))))
           (zip [Num 3] (filter (\<lambda>n. type_n n = Output) (nodes (snd (forward net_ex [Num 1])))))
   \<and> type_n (nodes (snd (backward (snd (forward net_ex [Num 1])) [Num 3])) ! 1) = Hidden
   \<and> error (nodes (snd (backward (snd (forward net_ex [Num 1])) [Num 3])) ! 1)
       = Some (js_mul
           (activateDerivative cfg_ex
              (activation (nodes (snd (backward (snd (forward net_ex [Num 1])) [Num 3])) ! 1)))
           (weighted_error (nodes (snd (backward (snd (forward net_ex [Num 1])) [Num 3])))
              (connections (snd (forward net_ex [Num 1])))
              (nodes (snd (backward (snd (forward net_ex [Num 1])) [Num 3])) ! 1)))
   \<and> map gradient (connections (snd (backward (snd (forward net_ex [Num 1])) [Num 3])))
       = [Num 1, Num 2]
   \<and> map weight (connections (snd (backward (snd (forward net_ex [Num 1])) [Num 3])))
       = [Num 1, Num (3 / 2)]"
proof -
  let ?net = "snd (forward net_ex [Num 1])"
  let ?net' = "snd (backward ?net [Num 3])"
  have h: "wf_network ?net"
    by (simp add: wf_network_def static_node_def static_connection_def eval_defs)
  have l: "length [Num 3] = outputSize (config ?net)"
    by (simp add: eval_defs)
  have c: "config ?net = cfg_ex" by (simp add: eval_defs)
  have v: "map error (nodes ?net') = [None, Some (Num 1), Some (Num 2)]"
    "map gradient (connections ?net') = [Num 1, Num 2]"
    "map weight (connections ?net') = [Num 1, Num (3 / 2)]"
    by (simp_all add: eval_defs)
  have m: "nodes ?net' ! 1 \<in> set (nodes ?net')" and t: "type_n (nodes ?net' ! 1) = Hidden"
    by (simp_all add: eval_defs)
  note main = backward_computes_errors_and_updates [OF h l]
  from main m t have hid: "error (nodes ?net' ! 1)
       = Some (js_mul (activateDerivative (config ?net) (activation (nodes ?net' ! 1)))
           (weighted_error (nodes ?net') (connections ?net) (nodes ?net' ! 1)))"
    by blast
  from main have out: "map error (filter (\<lambda>n. type_n n = Output) (nodes ?net'))
       = map (\<lambda>(t, n). Some (js_mul (js_sub t (activation n))
                                (activateDerivative (config ?net) (activation n))))
           (zip [Num 3] (filter (\<lambda>n. type_n n = Output) (nodes ?net)))"
    and none: "fst (backward ?net [Num 3]) = None"
    by blast+
  from h l v t hid out none show ?thesis
    by (simp only: c)
qed

text \<open>
  C4, on the network with two output neurons after a forward pass, and one target: \<open>backward\<close>
  throws nothing, but the second output neuron, which had no error, gets the error \<open>NaN\<close>,
  and the connection into it, which had the weight \<open>1/2\<close> and the gradient \<open>0\<close>, gets the
  weight \<open>NaN\<close> and the gradient \<open>NaN\<close>: they are not left as they were.
\<close>

theorem short_targets_not_truncated:
  "outputSize (config (snd (forward net_two [Num 1]))) = 2
   \<and> map type_n (nodes (snd (forward net_two [Num 1]))) = [Input, Output, Output]
   \<and> map error (nodes (snd (forward net_two [Num 1]))) = [None, None, None]
   \<and> map toNodeId (connections (snd (forward net_two [Num 1]))) = [''node-1'', ''node-2'']
   \<and> map weight (connections (snd (forward net_two [Num 1]))) = [Num (1 / 2), Num (1 / 2)]
   \<and> map gradient (connections (snd (forward net_two [Num 1]))) = [Num 0, Num 0]
   \<and> fst (backward (snd (forward net_two [Num 1])) [Num 3]) = None
   \<and> map error (nodes (snd (backward (snd (forward net_two [Num 1])) [Num 3])))
       = [None, Some (Num 2), Some NaN]
   \<and> map weight (connections (snd (backward (snd (forward net_two [Num 1])) [Num 3])))
       = [Num (3 / 2), NaN]
   \<and> map gradient (connections (snd (backward (snd (forward net_two [Num 1])) [Num 3])))
       = [Num 2, NaN]"
  by (simp add: net_two_def cfg_two_def eval_defs numeral_2_eq_2)

end
